theory Spec2Isabelle
  imports Complex_Main "HOL-Library.Sublist"
begin

section \<open>Ghost server bootstrap (core/server/index.js)\<close>

text \<open>
  The module wires external collaborators (model layer, settings API, permissions, mail,
  plugins, the HTTP server, the file system, the process object) into one startup
  sequence. The collaborators are not part of the module: each one is a parameter of the
  embedding, answering a call with the outcome of the promise it returns. What the
  module itself does is recorded as a trace of the calls it issues and of the
  settlements it observes, in the order in which they happen.

  A call of a collaborator returns: a failure of an asynchronous collaborator is the
  rejection of its promise, and the synchronous calls (constructors, \<open>uuid.v4()\<close>, the
  registration of view engine, middleware and routes) do not throw. Loading the module
  also requires the promise monitor when \<open>NODE_ENV\<close> is \<open>development\<close>; that has no part
  in the startup sequence and is left out.
\<close>

subsection \<open>JavaScript values, rejections and promise outcomes\<close>

datatype jsval =
    JUndefined
  | JNull
  | JBool bool
  | JNum int
  | JStr string
  | JArray "jsval list"
  | JObj "(string \<times> jsval) list"

text \<open>
  A promise is rejected either with a reason supplied by a collaborator or with the
  TypeError that the engine throws when a property of \<open>undefined\<close> or \<open>null\<close> is read.
\<close>

datatype error = TypeError | Reason jsval

datatype outcome = Resolved jsval | Rejected error

text \<open>
  Reading a property \<open>v.k\<close>: it throws on \<open>undefined\<close> and \<open>null\<close>, looks the key up in an
  object, and is \<open>undefined\<close> on every other value (none of the keys read in this module
  is a built-in property of a boolean, number, string or array).
\<close>

definition prop_get :: "jsval \<Rightarrow> string \<Rightarrow> error + jsval" where
  "prop_get v k =
     (case v of
        JUndefined \<Rightarrow> Inl TypeError
      | JNull \<Rightarrow> Inl TypeError
      | JObj fs \<Rightarrow> Inr (case map_of fs k of None \<Rightarrow> JUndefined | Some x \<Rightarrow> x)
      | _ \<Rightarrow> Inr JUndefined)"

text \<open>The decimal rendering of a whole number, as string concatenation with \<open>+\<close> makes it.\<close>

definition digit_char :: "nat \<Rightarrow> char" where
  "digit_char d = ''0123456789'' ! d"

fun decimal :: "nat \<Rightarrow> string \<Rightarrow> string" where
  "decimal n acc =
     (if n div 10 = 0 then digit_char n # acc
      else decimal (n div 10) (digit_char (n mod 10) # acc))"

definition number_to_string :: "int \<Rightarrow> string" where
  "number_to_string i =
     (if 0 \<le> i then decimal (nat i) [] else CHR ''-'' # decimal (nat (- i)) [])"

text \<open>
  ToString of a value, as string concatenation applies it: an array is the comma-joined
  rendering of its elements, with nothing for \<open>undefined\<close> and \<open>null\<close>; a plain object is
  \<open>[object Object]\<close>.
\<close>

fun js_to_string :: "jsval \<Rightarrow> string"
  and join_elements :: "jsval list \<Rightarrow> string" where
  "js_to_string JUndefined = ''undefined''"
| "js_to_string JNull = ''null''"
| "js_to_string (JBool b) = (if b then ''true'' else ''false'')"
| "js_to_string (JNum i) = number_to_string i"
| "js_to_string (JStr s) = s"
| "js_to_string (JArray xs) = join_elements xs"
| "js_to_string (JObj fs) = ''[object Object]''"
| "join_elements [] = []"
| "join_elements [x] = (if x = JUndefined \<or> x = JNull then [] else js_to_string x)"
| "join_elements (x # y # ys) =
     (if x = JUndefined \<or> x = JNull then [] else js_to_string x) @ '','' @ join_elements (y # ys)"

text \<open>
  \<open>Array.prototype.join\<close> on an array whose elements are strings or \<open>undefined\<close>: an
  undefined element contributes the empty string.
\<close>

fun array_join :: "string \<Rightarrow> string option list \<Rightarrow> string" where
  "array_join sep [] = []"
| "array_join sep [x] = (case x of None \<Rightarrow> [] | Some s \<Rightarrow> s)"
| "array_join sep (x # y # ys) =
     (case x of None \<Rightarrow> [] | Some s \<Rightarrow> s) @ sep @ array_join sep (y # ys)"

text \<open>\<open>process.env.X + 'suffix'\<close>: an unset variable is \<open>undefined\<close>.\<close>

definition env_to_string :: "string option \<Rightarrow> string" where
  "env_to_string v = (case v of None \<Rightarrow> ''undefined'' | Some s \<Rightarrow> s)"

subsection \<open>Configuration, records passed to collaborators\<close>

record server_config =
  host :: jsval
  port :: jsval
  socket :: "jsval option"

record config =
  url :: string
  server :: server_config

record setting =
  setting_key :: string
  setting_value :: string
  setting_type :: string

record notification =
  notification_type :: string
  message :: string
  notification_status :: string
  notification_id :: string

datatype colour = red | yellow | green | grey

datatype log_arg = Plain string | Styled colour string | Number int

datatype handler = production_shutdown | development_shutdown

subsection \<open>Calls issued by the module and the trace of a run\<close>

datatype call =
    PolyglotNew
  | ExpressNew
  | ModelsInit
  | UpdatePaths string
  | PopulateDefaults
  | ApiInit
  | ThemeUpdate
  | SettingsRead string
  | PermissionsInit
  | UuidV4
  | SettingsAdd setting
  | NotificationsAdd notification
  | MailerInit
  | MimeDefine
  | ServerSetViewEngine
  | HbsCreate
  | ServerSetAdminViewEngine
  | LoadCoreHelpers
  | Middleware jsval
  | RoutesApi
  | RoutesAdmin
  | RoutesFrontend
  | PluginsInit
  | FsUnlink jsval
  | ListenSocket jsval
  | ListenPort jsval jsval
  | FsChmod jsval string
  | ConsoleLog "log_arg list"
  | ProcessOnSIGINT handler
  | ProcessExit int
  | LogErrorAndExit error

text \<open>
  An event is a call issued by the module, a settlement delivered to one of its
  continuations, or an assignment to the module variable \<open>dbHash\<close>.
\<close>

datatype event = Invoke call | Settle call outcome | AssignDbHash jsval

datatype status =
    Running
  | Exited int
  | TerminatedByErrorHandler
  | UncaughtException
  | KilledBySignal

record proc =
  trace :: "event list"
  status :: status

definition initial :: proc where
  "initial = \<lparr>trace = [], status = Running\<rparr>"

text \<open>The module variable \<open>dbHash\<close> holds what was last assigned to it; it starts undefined.\<close>

definition dbHash_of :: "event list \<Rightarrow> jsval" where
  "dbHash_of es = foldl (\<lambda>v e. case e of AssignDbHash x \<Rightarrow> x | _ \<Rightarrow> v) JUndefined es"

definition dbHash :: "proc \<Rightarrow> jsval" where
  "dbHash p = dbHash_of (trace p)"

text \<open>
  The environment of a run: the process environment, the configuration, the package
  metadata, and the answers of the collaborators. \<open>respond\<close> gives the outcome of the
  promise (or callback) that an asynchronous call settles with; \<open>models_first\<close> and
  \<open>permissions_after\<close> are the schedule of the two fan-out points (which of the first
  pair settles first; how many settlements of the dbHash resolution are observed before
  the permissions promise settles).
\<close>

record env =
  NODE_ENV :: "string option"
  conf :: config
  dirname :: string
  path_join :: "string list \<Rightarrow> string"
  node_version :: string
  engines_node :: string
  semver_satisfies :: "string \<Rightarrow> string \<Rightarrow> bool"
  uuid_v4 :: string
  respond :: "call \<Rightarrow> outcome"
  models_first :: bool
  permissions_after :: nat

definition emit :: "event \<Rightarrow> proc \<Rightarrow> proc" where
  "emit e p = p\<lparr>trace := trace p @ [e]\<rparr>"

text \<open>An asynchronous call that is awaited on its own: issued, then settled.\<close>

definition await :: "env \<Rightarrow> call \<Rightarrow> proc \<Rightarrow> outcome \<times> proc" where
  "await env c p = (respond env c, emit (Settle c (respond env c)) (emit (Invoke c) p))"

text \<open>\<open>promise.then(f)\<close>, \<open>promise.otherwise(g)\<close> and \<open>promise.then(f, g)\<close>.\<close>

definition then_do :: "outcome \<times> proc \<Rightarrow> (jsval \<Rightarrow> proc \<Rightarrow> outcome \<times> proc) \<Rightarrow> outcome \<times> proc" where
  "then_do r f = (case r of (Resolved v, p) \<Rightarrow> f v p | (Rejected e, p) \<Rightarrow> (Rejected e, p))"

definition otherwise :: "outcome \<times> proc \<Rightarrow> (error \<Rightarrow> proc \<Rightarrow> outcome \<times> proc) \<Rightarrow> outcome \<times> proc" where
  "otherwise r g = (case r of (Resolved v, p) \<Rightarrow> (Resolved v, p) | (Rejected e, p) \<Rightarrow> g e p)"

definition then_else ::
  "outcome \<times> proc \<Rightarrow> (jsval \<Rightarrow> proc \<Rightarrow> outcome \<times> proc) \<Rightarrow> (error \<Rightarrow> proc \<Rightarrow> outcome \<times> proc)
     \<Rightarrow> outcome \<times> proc" where
  "then_else r f g = (case r of (Resolved v, p) \<Rightarrow> f v p | (Rejected e, p) \<Rightarrow> g e p)"

subsection \<open>doFirstRun and initDbHashAndFirstRun\<close>

definition firstRunMessage :: "env \<Rightarrow> string option list" where
  "firstRunMessage env =
     [Some ''Welcome to Ghost.'',
      Some ''You're running under the <strong>'',
      NODE_ENV env,
      Some ''</strong>environment.'',
      Some ''Your URL is set to'',
      Some (''<strong>'' @ url (conf env) @ ''</strong>.''),
      Some (''See <a href='' @ [CHR 0x22] @ ''http://docs.ghost.org/'' @ [CHR 0x22]
              @ ''>http://docs.ghost.org</a> for instructions.'')]"

definition first_run_notification :: "env \<Rightarrow> notification" where
  "first_run_notification env =
     \<lparr>notification_type = ''info'',
      message = array_join '' '' (firstRunMessage env),
      notification_status = ''persistent'',
      notification_id = ''ghost-first-run''\<rparr>"

definition doFirstRun :: "env \<Rightarrow> proc \<Rightarrow> outcome \<times> proc" where
  "doFirstRun env p = await env (NotificationsAdd (first_run_notification env)) p"

definition initDbHashAndFirstRun :: "env \<Rightarrow> proc \<Rightarrow> outcome \<times> proc" where
  "initDbHashAndFirstRun env p =
     otherwise
       (then_do (await env (SettingsRead ''dbHash'') p)
          (\<lambda>hash p.
             case prop_get hash ''attributes'' of
               Inl e \<Rightarrow> (Rejected e, p)
             | Inr attributes \<Rightarrow>
                 (case prop_get attributes ''value'' of
                    Inl e \<Rightarrow> (Rejected e, p)
                  | Inr v \<Rightarrow> (Resolved v, emit (AssignDbHash v) p))))
       (\<lambda>error p.
          let hash = uuid_v4 env;
              p1 = emit (Invoke UuidV4) p
          in then_do
               (then_do
                  (await env
                     (SettingsAdd \<lparr>setting_key = ''dbHash'', setting_value = hash,
                                   setting_type = ''core''\<rparr>) p1)
                  (\<lambda>_ p. (Resolved (JStr hash), emit (AssignDbHash (JStr hash)) p)))
               (\<lambda>_ p. doFirstRun env p))"

subsection \<open>The two fan-out points\<close>

text \<open>
  \<open>when.join(a, b)\<close> on two collaborator calls: both are issued at once; the join is
  rejected with the first rejection delivered and resolved with both values once both are
  resolved. In this module the rejection of a join reaches the terminal handler, which
  ends the process, so a settlement that would come after the first rejection is never
  delivered.
\<close>

definition join_calls :: "env \<Rightarrow> bool \<Rightarrow> call \<Rightarrow> call \<Rightarrow> proc \<Rightarrow> outcome \<times> proc" where
  "join_calls env a_first a b p =
     (let p1 = emit (Invoke b) (emit (Invoke a) p);
          x = (if a_first then a else b);
          y = (if a_first then b else a)
      in case respond env x of
           Rejected e \<Rightarrow> (Rejected e, emit (Settle x (Rejected e)) p1)
         | Resolved vx \<Rightarrow>
             (let p2 = emit (Settle x (Resolved vx)) p1
              in case respond env y of
                   Rejected e \<Rightarrow> (Rejected e, emit (Settle y (Rejected e)) p2)
                 | Resolved vy \<Rightarrow>
                     (Resolved (JArray (if a_first then [vx, vy] else [vy, vx])),
                      emit (Settle y (Resolved vy)) p2)))"

text \<open>
  The events of a continuation chain are cut where the \<open>k\<close>-th settlement has been
  delivered and reacted to: the first part holds \<open>k\<close> settlements with the calls and
  assignments that follow each, the second part starts at the next settlement.
\<close>

fun split_at_settle :: "nat \<Rightarrow> event list \<Rightarrow> event list \<times> event list" where
  "split_at_settle k [] = ([], [])"
| "split_at_settle 0 (Settle c r # es) = ([], Settle c r # es)"
| "split_at_settle (Suc k) (Settle c r # es) =
     (let (xs, ys) = split_at_settle k es in (Settle c r # xs, ys))"
| "split_at_settle k (e # es) =
     (let (xs, ys) = split_at_settle k es in (e # xs, ys))"

text \<open>
  \<open>when.join(initDbHashAndFirstRun(), permissions.init())\<close>: the first event of the dbHash
  resolution (the read of the setting) is issued synchronously, then
  \<open>permissions.init()\<close> is called; the rest of the dbHash resolution runs while the
  permissions promise is pending, which settles after \<open>permissions_after\<close> settlements of
  the dbHash resolution were delivered. A rejection of either ends the join at once.
\<close>

definition join_dbHash_permissions :: "env \<Rightarrow> proc \<Rightarrow> outcome \<times> proc" where
  "join_dbHash_permissions env p =
     (let (r, q) = initDbHashAndFirstRun env p;
          evs = drop (length (trace p)) (trace q);
          started = take 1 evs @ [Invoke PermissionsInit];
          (before, after) = split_at_settle (permissions_after env) (drop 1 evs);
          perm = respond env PermissionsInit;
          settled = [Settle PermissionsInit perm]
      in case r of
           Rejected e \<Rightarrow>
             (if after = [] then (Rejected e, q\<lparr>trace := trace p @ started @ before\<rparr>)
              else (case perm of
                      Rejected e' \<Rightarrow>
                        (Rejected e', q\<lparr>trace := trace p @ started @ before @ settled\<rparr>)
                    | Resolved _ \<Rightarrow>
                        (Rejected e, q\<lparr>trace := trace p @ started @ before @ settled @ after\<rparr>)))
         | Resolved v \<Rightarrow>
             (case perm of
                Rejected e' \<Rightarrow>
                  (Rejected e', q\<lparr>trace := trace p @ started @ before @ settled\<rparr>)
              | Resolved v' \<Rightarrow>
                  (Resolved (JArray [v, v']),
                   q\<lparr>trace := trace p @ started @ before @ settled @ after\<rparr>)))"

subsection \<open>Socket selection, startGhost, the interrupt handlers\<close>

definition isString :: "jsval \<Rightarrow> bool" where
  "isString v = (case v of JStr _ \<Rightarrow> True | _ \<Rightarrow> False)"

fun truthy :: "jsval \<Rightarrow> bool" where
  "truthy JUndefined = False"
| "truthy JNull = False"
| "truthy (JBool b) = b"
| "truthy (JNum i) = (i \<noteq> 0)"
| "truthy (JStr s) = (s \<noteq> [])"
| "truthy (JArray xs) = True"
| "truthy (JObj fs) = True"

definition getSocket :: "env \<Rightarrow> jsval" where
  "getSocket env =
     (case socket (server (conf env)) of
        Some s \<Rightarrow>
          (if isString s then s
           else JStr (path_join env
                  [dirname env, ''../content/'', env_to_string (NODE_ENV env) @ ''.socket'']))
      | None \<Rightarrow> JBool False)"

definition process_exit :: "int \<Rightarrow> proc \<Rightarrow> proc" where
  "process_exit code p = (emit (Invoke (ProcessExit code)) p)\<lparr>status := Exited code\<rparr>"

definition console_log :: "log_arg list \<Rightarrow> proc \<Rightarrow> proc" where
  "console_log args p = emit (Invoke (ConsoleLog args)) p"

definition startGhost :: "env \<Rightarrow> proc \<Rightarrow> proc" where
  "startGhost env p =
     (if \<not> semver_satisfies env (node_version env) (engines_node env) then
        process_exit 0
          (console_log
             [Styled red (CHR 0x0A # ''ERROR: Unsupported version of Node''),
              Styled red (CHR 0x0A # ''Ghost needs Node version''),
              Styled yellow (engines_node env),
              Styled red ''you are using version'',
              Styled yellow (node_version env),
              Styled green
                (CHR 0x0A # ''Please go to http://nodejs.org to get a supported version'')] p)
      else if NODE_ENV env = Some ''production'' then
        emit (Invoke (ProcessOnSIGINT production_shutdown))
          (console_log
             [Styled green ''Ghost is running...'',
              Plain (CHR 0x0A # ''Your blog is now available on''),
              Plain (url (conf env)),
              Styled grey (CHR 0x0A # ''Ctrl+C to shut down'')] p)
      else
        emit (Invoke (ProcessOnSIGINT development_shutdown))
          (console_log
             [Styled green (''Ghost is running in '' @ env_to_string (NODE_ENV env) @ ''...''),
              Plain (CHR 0x0A # ''Listening on''),
              Plain (js_to_string
                (if truthy (getSocket env) then getSocket env
                 else JStr (js_to_string (host (server (conf env))) @ '':''
                            @ js_to_string (port (server (conf env)))))),
              Plain (CHR 0x0A # ''Url configured as:''),
              Plain (url (conf env)),
              Styled grey (CHR 0x0A # ''Ctrl+C to shut down'')] p))"

text \<open>\<open>Math.round\<close>: the nearest whole number, a tie going up.\<close>

definition Math_round :: "rat \<Rightarrow> int" where
  "Math_round x = \<lfloor>x + 1 / 2\<rfloor>"

text \<open>The two listeners that startGhost registers; \<open>uptime\<close> is what \<open>process.uptime()\<close> returns.\<close>

definition run_handler :: "rat \<Rightarrow> handler \<Rightarrow> proc \<Rightarrow> proc" where
  "run_handler uptime h p =
     (case h of
        production_shutdown \<Rightarrow>
          process_exit 0
            (console_log
               [Styled red (CHR 0x0A # ''Ghost has shut down''),
                Plain (CHR 0x0A # ''Your blog is now offline'')] p)
      | development_shutdown \<Rightarrow>
          process_exit 0
            (console_log
               [Styled red (CHR 0x0A # ''Ghost has shutdown''),
                Plain (CHR 0x0A # ''Ghost was running for''),
                Number (Math_round uptime),
                Plain ''seconds''] p))"

fun registered :: "event list \<Rightarrow> handler list" where
  "registered [] = []"
| "registered (Invoke (ProcessOnSIGINT h) # es) = h # registered es"
| "registered (e # es) = registered es"

text \<open>
  An interrupt delivered to the process: the registered listeners run in order while the
  process is alive; with no listener the signal has its default effect, which ends the
  process without running any code of the module.
\<close>

fun run_handlers :: "rat \<Rightarrow> handler list \<Rightarrow> proc \<Rightarrow> proc" where
  "run_handlers uptime [] p = p"
| "run_handlers uptime (h # hs) p =
     (if status p = Running then run_handlers uptime hs (run_handler uptime h p) else p)"

definition SIGINT :: "rat \<Rightarrow> proc \<Rightarrow> proc" where
  "SIGINT uptime p =
     (if status p \<noteq> Running then p
      else if registered (trace p) = [] then p\<lparr>status := KilledBySignal\<rparr>
      else run_handlers uptime (registered (trace p)) p)"

subsection \<open>setup and init\<close>

text \<open>The source's \<open>setup\<close> is named \<open>setup_server\<close> here, \<open>setup\<close> being a reserved word.\<close>

text \<open>
  Modelled from the spec: \<open>errors.logErrorAndExit\<close> belongs to the errorHandling module,
  which is not part of this file; it is the terminal handler that logs the error and
  terminates the process.
\<close>

definition logErrorAndExit :: "error \<Rightarrow> proc \<Rightarrow> proc" where
  "logErrorAndExit err p = (emit (Invoke (LogErrorAndExit err)) p)\<lparr>status := TerminatedByErrorHandler\<rparr>"

text \<open>
  \<open>server.listen(..., startGhost)\<close>: startGhost is the listener of the server's
  \<open>listening\<close> event. When the server cannot listen, it emits \<open>error\<close> instead, which
  nothing in the module listens to.
\<close>

definition listening :: "env \<Rightarrow> call \<Rightarrow> proc \<Rightarrow> proc" where
  "listening env c p =
     (case respond env c of
        Resolved v \<Rightarrow> startGhost env (emit (Settle c (Resolved v)) p)
      | Rejected e \<Rightarrow> (emit (Settle c (Rejected e)) p)\<lparr>status := UncaughtException\<rparr>)"

text \<open>The body of the callback of \<open>plugins.init()\<close>.\<close>

definition start_app :: "env \<Rightarrow> proc \<Rightarrow> proc" where
  "start_app env p =
     (if truthy (getSocket env) then
        (let p1 = emit (Invoke (FsUnlink (getSocket env))) p;
             p2 = emit (Settle (FsUnlink (getSocket env)) (respond env (FsUnlink (getSocket env)))) p1;
             p3 = emit (Invoke (ListenSocket (getSocket env))) p2;
             p4 = emit (Invoke (FsChmod (getSocket env) ''0744'')) p3
         in listening env (ListenSocket (getSocket env)) p4)
      else
        (let c = ListenPort (port (server (conf env))) (host (server (conf env)))
         in listening env c (emit (Invoke c) p)))"

text \<open>
  The last callback of the chain: configuration, view engine, middleware and routes are
  set up synchronously, then \<open>plugins.init()\<close> is called; its promise is not returned, so
  the callback completes with \<open>undefined\<close> and a rejection of the plugin promise has no
  handler.
\<close>

definition configure :: "env \<Rightarrow> proc \<Rightarrow> outcome \<times> proc" where
  "configure env p =
     (let p1 = foldl (\<lambda>q c. emit (Invoke c) q) p
                 [MimeDefine, ServerSetViewEngine, HbsCreate, ServerSetAdminViewEngine,
                  LoadCoreHelpers, Middleware (dbHash p), RoutesApi, RoutesAdmin,
                  RoutesFrontend];
          (r, p2) = then_do (await env PluginsInit p1)
                      (\<lambda>_ q. (Resolved JUndefined, start_app env q))
      in (Resolved JUndefined, p2))"

definition setup_server :: "env \<Rightarrow> proc \<Rightarrow> proc" where
  "setup_server env p =
     snd (then_else
       (then_do
         (then_do
           (then_do
             (then_do
               (then_do
                 (join_calls env (models_first env) ModelsInit (UpdatePaths (url (conf env)))
                    (emit (Invoke PolyglotNew) p))
                 (\<lambda>_. await env PopulateDefaults))
               (\<lambda>_. await env ApiInit))
             (\<lambda>_. await env ThemeUpdate))
           (\<lambda>_. join_dbHash_permissions env))
         (\<lambda>_. await env MailerInit))
       (\<lambda>_. configure env)
       (\<lambda>err q. (Resolved JUndefined, logErrorAndExit err q)))"

definition init :: "env \<Rightarrow> jsval \<Rightarrow> proc \<Rightarrow> proc" where
  "init env app p = setup_server env (if \<not> truthy app then emit (Invoke ExpressNew) p else p)"

subsection \<open>Observations on traces\<close>

fun notifications_added :: "event list \<Rightarrow> notification list" where
  "notifications_added [] = []"
| "notifications_added (Invoke (NotificationsAdd n) # es) = n # notifications_added es"
| "notifications_added (e # es) = notifications_added es"

fun settings_added :: "event list \<Rightarrow> setting list" where
  "settings_added [] = []"
| "settings_added (Invoke (SettingsAdd s) # es) = s # settings_added es"
| "settings_added (e # es) = settings_added es"

fun hashes_generated :: "event list \<Rightarrow> nat" where
  "hashes_generated [] = 0"
| "hashes_generated (Invoke UuidV4 # es) = Suc (hashes_generated es)"
| "hashes_generated (e # es) = hashes_generated es"

text \<open>The errors handed to the terminal handler.\<close>

fun handled :: "event list \<Rightarrow> error list" where
  "handled [] = []"
| "handled (Invoke (LogErrorAndExit e) # es) = e # handled es"
| "handled (e # es) = handled es"

text \<open>\<open>precedes a b t\<close>: \<open>b\<close> occurs in \<open>t\<close> after the first occurrence of \<open>a\<close>.\<close>

fun precedes :: "event \<Rightarrow> event \<Rightarrow> event list \<Rightarrow> bool" where
  "precedes a b [] = False"
| "precedes a b (e # es) = (if e = a then b \<in> set es else precedes a b es)"

fun listen_call :: "call \<Rightarrow> bool" where
  "listen_call (ListenSocket path) = True"
| "listen_call (ListenPort p h) = True"
| "listen_call c = False"

text \<open>A call of \<open>server.listen\<close>, and the delivery of the server's \<open>listening\<close> event.\<close>

fun is_listen :: "event \<Rightarrow> bool" where
  "is_listen (Invoke c) = listen_call c"
| "is_listen e = False"

fun is_listening :: "event \<Rightarrow> bool" where
  "is_listening (Settle c (Resolved v)) = listen_call c"
| "is_listening e = False"

text \<open>What was printed with \<open>console.log\<close>.\<close>

fun logged :: "event list \<Rightarrow> log_arg list list" where
  "logged [] = []"
| "logged (Invoke (ConsoleLog args) # es) = args # logged es"
| "logged (e # es) = logged es"

text \<open>No interrupt listener is registered before the first call of \<open>server.listen\<close>.\<close>

fun guarded :: "event list \<Rightarrow> bool" where
  "guarded [] = True"
| "guarded (e # es) = (is_listen e \<or> (registered [e] = [] \<and> guarded es))"

text \<open>
  A run has reached successful startup when the server is listening and the listen
  callback has left the process running.
\<close>

definition started :: "proc \<Rightarrow> bool" where
  "started p = (status p = Running \<and> list_ex is_listening (trace p))"

text \<open>
  What reading the persisted hash yields in \<open>initDbHashAndFirstRun\<close>: the rejection of the
  read, the TypeError of \<open>hash.attributes.value\<close> on a result without attributes, or the
  stored value.
\<close>

definition read_dbHash :: "env \<Rightarrow> error + jsval" where
  "read_dbHash env =
     (case respond env (SettingsRead ''dbHash'') of
        Rejected e \<Rightarrow> Inl e
      | Resolved hash \<Rightarrow>
          (case prop_get hash ''attributes'' of
             Inl e \<Rightarrow> Inl e
           | Inr attributes \<Rightarrow> prop_get attributes ''value''))"

definition dbHash_setting :: "env \<Rightarrow> setting" where
  "dbHash_setting env =
     \<lparr>setting_key = ''dbHash'', setting_value = uuid_v4 env, setting_type = ''core''\<rparr>"

definition dbHash_events :: "env \<Rightarrow> event list" where
  "dbHash_events env = trace (snd (initDbHashAndFirstRun env initial))"

text \<open>
  The state of the process when the first \<open>k\<close> events of a run have happened: it is
  running as long as events are to come.
\<close>

definition at_event :: "nat \<Rightarrow> proc \<Rightarrow> proc" where
  "at_event k p =
     \<lparr>trace = take k (trace p), status = (if k < length (trace p) then Running else status p)\<rparr>"

subsection \<open>The initialisation chain as a sequence of steps\<close>

text \<open>
  Every stage of the chain before the last callback appends events that depend on the
  environment only, and passes its outcome on. \<open>seq\<close> composes two such stages the way
  \<open>then\<close> does: the second runs only when the first is resolved.
\<close>

fun is_resolved :: "outcome \<Rightarrow> bool" where
  "is_resolved (Resolved v) = True"
| "is_resolved (Rejected e) = False"

definition run_step :: "outcome \<times> event list \<Rightarrow> proc \<Rightarrow> outcome \<times> proc" where
  "run_step s p = (fst s, p\<lparr>trace := trace p @ snd s\<rparr>)"

definition seq :: "outcome \<times> event list \<Rightarrow> outcome \<times> event list \<Rightarrow> outcome \<times> event list" where
  "seq s s' = (if is_resolved (fst s) then (fst s', snd s @ snd s') else s)"

definition call_step :: "env \<Rightarrow> call \<Rightarrow> outcome \<times> event list" where
  "call_step env c = (respond env c, [Invoke c, Settle c (respond env c)])"

definition fan_out_1 :: "env \<Rightarrow> outcome \<times> event list" where
  "fan_out_1 env =
     (case join_calls env (models_first env) ModelsInit (UpdatePaths (url (conf env))) initial of
        (r, q) \<Rightarrow> (r, trace q))"

definition fan_out_2 :: "env \<Rightarrow> outcome \<times> event list" where
  "fan_out_2 env = (case join_dbHash_permissions env initial of (r, q) \<Rightarrow> (r, trace q))"

text \<open>The promise on which the last \<open>then\<close> of \<open>setup\<close> is called.\<close>

definition init_chain :: "env \<Rightarrow> proc \<Rightarrow> outcome \<times> proc" where
  "init_chain env p =
     then_do
       (then_do
         (then_do
           (then_do
             (then_do
               (join_calls env (models_first env) ModelsInit (UpdatePaths (url (conf env)))
                  (emit (Invoke PolyglotNew) p))
               (\<lambda>_. await env PopulateDefaults))
             (\<lambda>_. await env ApiInit))
           (\<lambda>_. await env ThemeUpdate))
         (\<lambda>_. join_dbHash_permissions env))
       (\<lambda>_. await env MailerInit)"

definition init_steps :: "env \<Rightarrow> outcome \<times> event list" where
  "init_steps env =
     seq (seq (seq (seq (seq (seq (Resolved JUndefined, [Invoke PolyglotNew]) (fan_out_1 env))
       (call_step env PopulateDefaults))
       (call_step env ApiInit))
       (call_step env ThemeUpdate))
       (fan_out_2 env))
       (call_step env MailerInit)"

fun fan_out_call :: "call \<Rightarrow> bool" where
  "fan_out_call (SettingsRead k) = True"
| "fan_out_call UuidV4 = True"
| "fan_out_call (SettingsAdd s) = True"
| "fan_out_call (NotificationsAdd n) = True"
| "fan_out_call PermissionsInit = True"
| "fan_out_call c = False"

fun fan_out_event :: "event \<Rightarrow> bool" where
  "fan_out_event (Invoke c) = fan_out_call c"
| "fan_out_event (Settle c r) = fan_out_call c"
| "fan_out_event (AssignDbHash v) = True"

fun dbHash_event :: "event \<Rightarrow> bool" where
  "dbHash_event (Invoke c) = (fan_out_call c \<and> c \<noteq> PermissionsInit)"
| "dbHash_event (Settle c r) = (fan_out_call c \<and> c \<noteq> PermissionsInit)"
| "dbHash_event (AssignDbHash v) = True"

fun init_call :: "call \<Rightarrow> bool" where
  "init_call PolyglotNew = True"
| "init_call ModelsInit = True"
| "init_call (UpdatePaths u) = True"
| "init_call PopulateDefaults = True"
| "init_call ApiInit = True"
| "init_call ThemeUpdate = True"
| "init_call MailerInit = True"
| "init_call c = fan_out_call c"

fun init_event :: "event \<Rightarrow> bool" where
  "init_event (Invoke c) = init_call c"
| "init_event (Settle c r) = init_call c"
| "init_event (AssignDbHash v) = True"

text \<open>
  The events of starting the application (the callback of \<open>plugins.init()\<close> and the listen
  callback), and the call of \<open>server.listen\<close> that the configuration selects.
\<close>

definition start_events :: "env \<Rightarrow> event list" where
  "start_events env = trace (start_app env initial)"

definition listen_target :: "env \<Rightarrow> call" where
  "listen_target env =
     (if truthy (getSocket env) then ListenSocket (getSocket env)
      else ListenPort (port (server (conf env))) (host (server (conf env))))"

fun start_call :: "call \<Rightarrow> bool" where
  "start_call (FsUnlink path) = True"
| "start_call (ListenSocket path) = True"
| "start_call (ListenPort p h) = True"
| "start_call (FsChmod path mode) = True"
| "start_call (ConsoleLog args) = True"
| "start_call (ProcessOnSIGINT h) = True"
| "start_call (ProcessExit code) = True"
| "start_call c = False"

fun start_event :: "event \<Rightarrow> bool" where
  "start_event (Invoke c) = start_call c"
| "start_event (Settle c r) = start_call c"
| "start_event (AssignDbHash v) = False"

subsection \<open>Concrete environments\<close>

definition stored_hash :: jsval where
  "stored_hash =
     JObj [(''attributes'', JObj [(''key'', JStr ''dbHash''), (''value'', JStr ''5f1c62a0'')])]"

text \<open>A development installation on host and port whose hash is already stored.\<close>

definition env_dev :: env where
  "env_dev =
     \<lparr>NODE_ENV = Some ''development'',
      conf = \<lparr>url = ''http://my-ghost-blog.com'',
              server = \<lparr>host = JStr ''127.0.0.1'', port = JStr ''2368'', socket = None\<rparr>\<rparr>,
      dirname = ''/ghost/core/server'',
      path_join = (\<lambda>xs. if xs = [''/ghost/core/server'', ''../content/'', ''development.socket'']
                          then ''/ghost/core/content/development.socket'' else concat xs),
      node_version = ''0.10.26'',
      engines_node = ''~0.10.0'',
      semver_satisfies = (\<lambda>v r. v = ''0.10.26'' \<and> r = ''~0.10.0''),
      uuid_v4 = ''110ec58a-a0f2-4ac4-8393-c866d813b8d1'',
      respond = (\<lambda>c. case c of SettingsRead k \<Rightarrow> Resolved stored_hash | _ \<Rightarrow> Resolved JUndefined),
      models_first = True,
      permissions_after = 1\<rparr>"

text \<open>A fresh installation: the read finds nothing and resolves with \<open>null\<close>.\<close>

definition env_fresh :: env where
  "env_fresh = env_dev\<lparr>respond := (\<lambda>c. case c of SettingsRead k \<Rightarrow> Resolved JNull
                                          | _ \<Rightarrow> Resolved JUndefined)\<rparr>"

text \<open>The read is rejected and the new hash cannot be stored either.\<close>

definition env_persist_fails :: env where
  "env_persist_fails =
     env_dev\<lparr>respond := (\<lambda>c. case c of
                 SettingsRead k \<Rightarrow> Rejected (Reason (JStr ''NotFound''))
               | SettingsAdd s \<Rightarrow> Rejected (Reason (JStr ''SQLITE_READONLY''))
               | _ \<Rightarrow> Resolved JUndefined)\<rparr>"

text \<open>The database is unreachable for the read and for the write.\<close>

definition env_db_down :: env where
  "env_db_down =
     env_dev\<lparr>respond := (\<lambda>c. case c of
                 SettingsRead k \<Rightarrow> Rejected (Reason (JStr ''ETIMEDOUT''))
               | SettingsAdd s \<Rightarrow> Rejected (Reason (JStr ''ECONNREFUSED''))
               | _ \<Rightarrow> Resolved JUndefined)\<rparr>"

text \<open>The read is rejected with a connection error; everything else works.\<close>

definition env_read_error :: env where
  "env_read_error =
     env_dev\<lparr>respond := (\<lambda>c. case c of
                 SettingsRead k \<Rightarrow> Rejected (Reason (JStr ''ECONNRESET''))
               | _ \<Rightarrow> Resolved JUndefined)\<rparr>"

text \<open>A Node version outside the supported range.\<close>

definition env_old_node :: env where
  "env_old_node = env_dev\<lparr>node_version := ''0.8.28''\<rparr>"

text \<open>An unsupported Node version, with plugins that are rejected.\<close>

definition env_old_node_plugin_fails :: env where
  "env_old_node_plugin_fails =
     env_dev\<lparr>node_version := ''0.8.28'',
             respond := (\<lambda>c. case c of
                 SettingsRead k \<Rightarrow> Resolved stored_hash
               | PluginsInit \<Rightarrow> Rejected (Reason (JStr ''plugin failed to load''))
               | _ \<Rightarrow> Resolved JUndefined)\<rparr>"

text \<open>Plugin initialisation is rejected.\<close>

definition env_plugin_fails :: env where
  "env_plugin_fails =
     env_dev\<lparr>respond := (\<lambda>c. case c of
                 SettingsRead k \<Rightarrow> Resolved stored_hash
               | PluginsInit \<Rightarrow> Rejected (Reason (JStr ''plugin failed to load''))
               | _ \<Rightarrow> Resolved JUndefined)\<rparr>"

text \<open>Socket mode with the default path (\<open>socket: true\<close>), in production.\<close>

definition env_socket :: env where
  "env_socket =
     env_dev\<lparr>NODE_ENV := Some ''production'',
             conf := \<lparr>url = ''http://my-ghost-blog.com'',
                      server = \<lparr>host = JStr ''127.0.0.1'', port = JStr ''2368'',
                                socket = Some (JBool True)\<rparr>\<rparr>,
             path_join := (\<lambda>xs. if xs = [''/ghost/core/server'', ''../content/'', ''production.socket'']
                          then ''/ghost/core/content/production.socket'' else concat xs)\<rparr>"

text \<open>Socket mode with a path given in the configuration.\<close>

definition env_custom_socket :: env where
  "env_custom_socket =
     env_dev\<lparr>conf := \<lparr>url = ''http://my-ghost-blog.com'',
                      server = \<lparr>host = JStr ''127.0.0.1'', port = JStr ''2368'',
                                socket = Some (JStr ''/var/run/ghost.sock'')\<rparr>\<rparr>\<rparr>"

section \<open>Properties\<close>

subsection \<open>Basic facts\<close>

lemma trace_emit [simp]: "trace (emit e p) = trace p @ [e]"
  by (simp add: emit_def)

lemma status_emit [simp]: "status (emit e p) = status p"
  by (simp add: emit_def)

lemma await_eq:
  "await env c p = (respond env c, p\<lparr>trace := trace p @ [Invoke c, Settle c (respond env c)]\<rparr>)"
  by (simp add: await_def emit_def)

lemmas chain_defs = then_do_def otherwise_def then_else_def await_eq doFirstRun_def

lemmas dbHash_defs = initDbHashAndFirstRun_def chain_defs initial_def Let_def emit_def

lemma initDbHashAndFirstRun_frame:
  "initDbHashAndFirstRun env p =
     (fst (initDbHashAndFirstRun env initial), p\<lparr>trace := trace p @ dbHash_events env\<rparr>)"
  by (auto simp: dbHash_events_def dbHash_defs split: outcome.splits sum.splits)

lemma array_join_sublist: "Some s \<in> set xs \<Longrightarrow> sublist s (array_join sep xs)"
proof (induction sep xs rule: array_join.induct)
  case (1 sep)
  then show ?case by simp
next
  case (2 sep x)
  then show ?case by auto
next
  case (3 sep x y ys)
  show ?case
  proof (cases "x = Some s")
    case True
    then show ?thesis by simp
  next
    case False
    with 3 have "sublist s (array_join sep (y # ys))" by simp
    then have "sublist s (((case x of None \<Rightarrow> [] | Some t \<Rightarrow> t) @ sep) @ array_join sep (y # ys))"
      by (simp only: sublist_append) blast
    then show ?thesis by simp
  qed
qed

subsection \<open>The first-run notification\<close>

text \<open>
  Claim C9. \<open>doFirstRun\<close> creates one notification, by one call of
  \<open>api.notifications.add\<close>; it has type \<open>info\<close>, the fixed identifier \<open>ghost-first-run\<close> and
  status \<open>persistent\<close>, and its message contains the configured URL and, when
  \<open>NODE_ENV\<close> is set, the name of the environment.
\<close>

theorem doFirstRun_notification:
  "\<exists>n. trace (snd (doFirstRun env p)) =
          trace p @ [Invoke (NotificationsAdd n), Settle (NotificationsAdd n) (fst (doFirstRun env p))]
      \<and> notification_type n = ''info''
      \<and> notification_id n = ''ghost-first-run''
      \<and> notification_status n = ''persistent''
      \<and> sublist (url (conf env)) (message n)
      \<and> (\<forall>name. NODE_ENV env = Some name \<longrightarrow> sublist name (message n))"
proof -
  let ?n = "first_run_notification env"
  have msg: "message ?n = array_join '' '' (firstRunMessage env)"
    by (simp add: first_run_notification_def)
  have "sublist (''<strong>'' @ url (conf env) @ ''</strong>.'') (message ?n)"
    unfolding msg by (rule array_join_sublist) (simp add: firstRunMessage_def)
  moreover have "sublist (url (conf env)) (''<strong>'' @ url (conf env) @ ''</strong>.'')"
    by (rule sublist_appendI)
  ultimately have u: "sublist (url (conf env)) (message ?n)"
    by (rule sublist_order.order.trans [rotated])
  have e: "sublist name (message ?n)" if "NODE_ENV env = Some name" for name
    unfolding msg by (rule array_join_sublist) (simp add: firstRunMessage_def that)
  have t: "trace (snd (doFirstRun env p)) =
          trace p @ [Invoke (NotificationsAdd ?n), Settle (NotificationsAdd ?n) (fst (doFirstRun env p))]"
    by (simp add: doFirstRun_def await_eq)
  have f: "notification_type ?n = ''info'' \<and> notification_id ?n = ''ghost-first-run''
      \<and> notification_status ?n = ''persistent''"
    by (simp add: first_run_notification_def)
  from t f u e show ?thesis by blast
qed

text \<open>The development installation: both names are in the message.\<close>

theorem doFirstRun_notification_witness:
  "NODE_ENV env_dev = Some ''development''
   \<and> (\<exists>n. notifications_added (trace (snd (doFirstRun env_dev initial))) = [n]
          \<and> notification_id n = ''ghost-first-run''
          \<and> sublist ''development'' (message n)
          \<and> sublist ''http://my-ghost-blog.com'' (message n))"
proof -
  have e: "NODE_ENV env_dev = Some ''development''" and u: "url (conf env_dev) = ''http://my-ghost-blog.com''"
    by (simp_all add: env_dev_def)
  from doFirstRun_notification [of env_dev initial] obtain n where
    n: "trace (snd (doFirstRun env_dev initial)) =
          trace initial @ [Invoke (NotificationsAdd n), Settle (NotificationsAdd n) (fst (doFirstRun env_dev initial))]"
       "notification_id n = ''ghost-first-run''"
       "sublist (url (conf env_dev)) (message n)"
       "\<forall>name. NODE_ENV env_dev = Some name \<longrightarrow> sublist name (message n)"
    by blast
  from n(4) e have "sublist ''development'' (message n)" by blast
  moreover have "notifications_added (trace (snd (doFirstRun env_dev initial))) = [n]"
    using n(1) by (simp add: initial_def)
  ultimately show ?thesis using e n(2) n(3) u by auto
qed

subsection \<open>The dbHash resolution\<close>

text \<open>
  The function in one equation: what it appends to the trace and what it settles with,
  by what the read yields and, on the generation path, by the outcome of storing the new
  hash.
\<close>

lemma initDbHashAndFirstRun_eq:
  "initDbHashAndFirstRun env p =
     (let rd = SettingsRead ''dbHash'';
          s = SettingsAdd (dbHash_setting env);
          n = NotificationsAdd (first_run_notification env);
          t = trace p @ [Invoke rd, Settle rd (respond env rd)]
      in case read_dbHash env of
           Inr v \<Rightarrow> (Resolved v, p\<lparr>trace := t @ [AssignDbHash v]\<rparr>)
         | Inl e \<Rightarrow>
             (case respond env s of
                Rejected e' \<Rightarrow>
                  (Rejected e', p\<lparr>trace := t @ [Invoke UuidV4, Invoke s, Settle s (Rejected e')]\<rparr>)
              | Resolved x \<Rightarrow>
                  (respond env n,
                   p\<lparr>trace := t @ [Invoke UuidV4, Invoke s, Settle s (Resolved x),
                                    AssignDbHash (JStr (uuid_v4 env)), Invoke n,
                                    Settle n (respond env n)]\<rparr>)))"
  by (auto simp: read_dbHash_def initDbHashAndFirstRun_def chain_defs Let_def emit_def
        dbHash_setting_def split: outcome.splits sum.splits)

lemma first_run_notification_respond [simp]:
  "first_run_notification (env\<lparr>respond := f\<rparr>) = first_run_notification env"
  by (simp add: first_run_notification_def firstRunMessage_def)

lemma dbHash_setting_respond [simp]:
  "dbHash_setting (env\<lparr>respond := f\<rparr>) = dbHash_setting env"
  by (simp add: dbHash_setting_def)

lemma dbHash_events_eq:
  "dbHash_events env =
     (let rd = SettingsRead ''dbHash'';
          s = SettingsAdd (dbHash_setting env);
          n = NotificationsAdd (first_run_notification env)
      in Invoke rd # Settle rd (respond env rd) #
         (case read_dbHash env of
            Inr v \<Rightarrow> [AssignDbHash v]
          | Inl e \<Rightarrow>
             Invoke UuidV4 # Invoke s # Settle s (respond env s) #
             (case respond env s of
                Rejected e' \<Rightarrow> []
              | Resolved x \<Rightarrow>
                  [AssignDbHash (JStr (uuid_v4 env)), Invoke n, Settle n (respond env n)])))"
  by (simp add: dbHash_events_def initDbHashAndFirstRun_eq initial_def Let_def
        split: sum.splits outcome.splits)

lemma read_dbHash_env_fresh: "read_dbHash env_fresh = Inl TypeError"
  by (simp add: read_dbHash_def env_fresh_def env_dev_def prop_get_def)

lemma read_dbHash_env_dev: "read_dbHash env_dev = Inr (JStr ''5f1c62a0'')"
  by (simp add: read_dbHash_def env_dev_def prop_get_def stored_hash_def)

text \<open>
  Claim C1 as stated fails where the read is rejected and storing the new hash is
  rejected too: no first-run notification is created.
\<close>

theorem initDbHashAndFirstRun_persist_failure:
  "respond env_persist_fails (SettingsRead ''dbHash'') = Rejected (Reason (JStr ''NotFound''))
   \<and> notifications_added (trace (snd (initDbHashAndFirstRun env_persist_fails initial))) = []"
  by (simp add: env_persist_fails_def env_dev_def initDbHashAndFirstRun_eq read_dbHash_def initial_def
        Let_def)

text \<open>
  Claim C1, amended. Where reading the persisted hash fails, exactly one hash is
  generated and exactly one \<open>Settings.add\<close> is issued, for key \<open>dbHash\<close> with that hash and
  type \<open>core\<close>; when that call is resolved, the hash is retained in \<open>dbHash\<close> and exactly
  one first-run notification is created; when it is rejected, no notification is created
  and the rejection is the outcome. Where the read yields a stored value, nothing is
  generated or stored, no notification is created, and \<open>dbHash\<close> is that value.
\<close>

theorem initDbHashAndFirstRun_first_run:
  "(\<forall>e. read_dbHash env = Inl e \<longrightarrow>
      (case initDbHashAndFirstRun env initial of
         (r, q) \<Rightarrow>
           hashes_generated (trace q) = 1 \<and>
           settings_added (trace q) = [dbHash_setting env] \<and>
           (case respond env (SettingsAdd (dbHash_setting env)) of
              Resolved x \<Rightarrow>
                notifications_added (trace q) = [first_run_notification env] \<and>
                dbHash q = JStr (uuid_v4 env)
            | Rejected e' \<Rightarrow>
                notifications_added (trace q) = [] \<and> r = Rejected e')))
   \<and> (\<forall>v. read_dbHash env = Inr v \<longrightarrow>
      (case initDbHashAndFirstRun env initial of
         (r, q) \<Rightarrow>
           hashes_generated (trace q) = 0 \<and> settings_added (trace q) = [] \<and>
           notifications_added (trace q) = [] \<and> dbHash q = v \<and> r = Resolved v))"
  by (auto simp: initDbHashAndFirstRun_eq initial_def dbHash_def dbHash_of_def Let_def
        split: outcome.splits)

text \<open>A fresh installation, and an installation with a stored hash.\<close>

theorem initDbHashAndFirstRun_first_run_witness:
  "read_dbHash env_fresh = Inl TypeError
   \<and> hashes_generated (dbHash_events env_fresh) = 1
   \<and> settings_added (dbHash_events env_fresh) = [dbHash_setting env_fresh]
   \<and> notifications_added (dbHash_events env_fresh) = [first_run_notification env_fresh]
   \<and> read_dbHash env_dev = Inr (JStr ''5f1c62a0'')
   \<and> notifications_added (dbHash_events env_dev) = []
   \<and> dbHash (snd (initDbHashAndFirstRun env_dev initial)) = JStr ''5f1c62a0''"
proof -
  have a: "respond env_fresh (SettingsAdd (dbHash_setting env_fresh)) = Resolved JUndefined"
    by (simp add: env_fresh_def env_dev_def)
  show ?thesis
    using initDbHashAndFirstRun_first_run [of env_fresh] initDbHashAndFirstRun_first_run [of env_dev]
      read_dbHash_env_fresh read_dbHash_env_dev a
    by (auto simp: dbHash_events_def split: prod.splits)
qed

text \<open>
  Claim C4 as stated fails where the read is rejected and the store rejects the write:
  the hash is generated and the write is issued, but nothing is stored and no first-run
  notification is emitted.
\<close>

theorem initDbHashAndFirstRun_db_down:
  "respond env_db_down (SettingsRead ''dbHash'') = Rejected (Reason (JStr ''ETIMEDOUT''))
   \<and> settings_added (dbHash_events env_db_down) = [dbHash_setting env_db_down]
   \<and> respond env_db_down (SettingsAdd (dbHash_setting env_db_down)) = Rejected (Reason (JStr ''ECONNREFUSED''))
   \<and> notifications_added (dbHash_events env_db_down) = []"
  by (simp add: env_db_down_def env_dev_def dbHash_events_eq read_dbHash_def Let_def)

text \<open>
  Claim C4, amended. Whatever the failure of the read (a rejection with any reason, or a
  result without attributes), the same generation path is taken: a hash is generated and
  the write of it under \<open>dbHash\<close> is issued; when the write is resolved the hash is
  retained and the first-run notification is emitted, when it is rejected the path ends
  with that rejection. Replacing one failure of the read by another changes neither the
  outcome nor any event after the settlement of the read: the error of the read is not
  distinguished and is not the outcome.
\<close>

theorem read_error_not_distinguished:
  assumes "read_dbHash env = Inl e"
    and "env' = env\<lparr>respond := (respond env)(SettingsRead ''dbHash'' := other)\<rparr>"
    and "read_dbHash env' = Inl e'"
  shows "fst (initDbHashAndFirstRun env' initial) = fst (initDbHashAndFirstRun env initial)
    \<and> drop 2 (dbHash_events env') = drop 2 (dbHash_events env)
    \<and> drop 2 (dbHash_events env) =
        Invoke UuidV4 # Invoke (SettingsAdd (dbHash_setting env))
        # Settle (SettingsAdd (dbHash_setting env)) (respond env (SettingsAdd (dbHash_setting env)))
        # (case respond env (SettingsAdd (dbHash_setting env)) of
             Resolved x \<Rightarrow>
               [AssignDbHash (JStr (uuid_v4 env)),
                Invoke (NotificationsAdd (first_run_notification env)),
                Settle (NotificationsAdd (first_run_notification env))
                  (respond env (NotificationsAdd (first_run_notification env)))]
           | Rejected x \<Rightarrow> [])
    \<and> fst (initDbHashAndFirstRun env initial) =
        (case respond env (SettingsAdd (dbHash_setting env)) of
           Resolved x \<Rightarrow> respond env (NotificationsAdd (first_run_notification env))
         | Rejected x \<Rightarrow> Rejected x)"
  using assms
  by (auto simp: initDbHashAndFirstRun_eq dbHash_events_eq initial_def Let_def
        split: outcome.splits)

text \<open>A connection error of the read against a read that finds nothing.\<close>

theorem read_error_not_distinguished_witness:
  "read_dbHash env_read_error = Inl (Reason (JStr ''ECONNRESET''))
   \<and> read_dbHash (env_read_error\<lparr>respond := (respond env_read_error)
                                   (SettingsRead ''dbHash'' := Resolved JNull)\<rparr>) = Inl TypeError
   \<and> fst (initDbHashAndFirstRun
            (env_read_error\<lparr>respond := (respond env_read_error)
                                   (SettingsRead ''dbHash'' := Resolved JNull)\<rparr>) initial)
       = fst (initDbHashAndFirstRun env_read_error initial)
   \<and> notifications_added (drop 2 (dbHash_events env_read_error))
       = [first_run_notification env_read_error]"
proof -
  have r: "read_dbHash env_read_error = Inl (Reason (JStr ''ECONNRESET''))"
    by (simp add: read_dbHash_def env_read_error_def env_dev_def)
  have n: "read_dbHash (env_read_error\<lparr>respond := (respond env_read_error)
                                   (SettingsRead ''dbHash'' := Resolved JNull)\<rparr>) = Inl TypeError"
    by (simp add: read_dbHash_def prop_get_def)
  have a: "respond env_read_error (SettingsAdd (dbHash_setting env_read_error)) = Resolved JUndefined"
    by (simp add: env_read_error_def env_dev_def)
  show ?thesis
    using read_error_not_distinguished [OF r refl n] r n a
    by simp
qed

subsection \<open>Socket selection\<close>

text \<open>
  Claim C5. \<open>getSocket\<close> returns the configured \<open>server.socket\<close> when it is a string; when
  the key is present with a value that is not a string, it returns the default path joined
  from the module directory, \<open>../content/\<close> and the environment name followed by
  \<open>.socket\<close>; when the key is absent it returns \<open>false\<close>, and the application then listens
  on the configured port and host, and on nothing else.
\<close>

theorem getSocket_resolution:
  "(\<forall>s. socket (server (conf env)) = Some (JStr s) \<longrightarrow> getSocket env = JStr s)
   \<and> (\<forall>v. socket (server (conf env)) = Some v \<and> \<not> isString v \<longrightarrow>
         getSocket env =
           JStr (path_join env [dirname env, ''../content/'', env_to_string (NODE_ENV env) @ ''.socket'']))
   \<and> (socket (server (conf env)) = None \<longrightarrow>
         getSocket env = JBool False
         \<and> (\<exists>es. trace (start_app env p) =
                 trace p @ Invoke (ListenPort (port (server (conf env))) (host (server (conf env)))) # es
               \<and> (\<forall>e\<in>set es. \<not> is_listen e)))"
  by (auto simp: getSocket_def isString_def start_app_def listening_def startGhost_def
        process_exit_def console_log_def Let_def split: outcome.splits)

text \<open>A configured path, the default path, and host and port.\<close>

theorem getSocket_resolution_witness:
  "getSocket env_custom_socket = JStr ''/var/run/ghost.sock''
   \<and> getSocket env_socket = JStr ''/ghost/core/content/production.socket''
   \<and> getSocket env_dev = JBool False
   \<and> hd (trace (start_app env_dev initial)) = Invoke (ListenPort (JStr ''2368'') (JStr ''127.0.0.1''))"
proof -
  have c: "socket (server (conf env_custom_socket)) = Some (JStr ''/var/run/ghost.sock'')"
    by (simp add: env_custom_socket_def env_dev_def)
  have s: "socket (server (conf env_socket)) = Some (JBool True) \<and> \<not> isString (JBool True)"
    by (simp add: env_socket_def env_dev_def isString_def)
  have d: "socket (server (conf env_dev)) = None"
    by (simp add: env_dev_def)
  have p: "path_join env_socket [dirname env_socket, ''../content/'', env_to_string (NODE_ENV env_socket) @ ''.socket'']
           = ''/ghost/core/content/production.socket''"
    by (simp add: env_socket_def env_dev_def env_to_string_def)
  have h: "port (server (conf env_dev)) = JStr ''2368''" "host (server (conf env_dev)) = JStr ''127.0.0.1''"
    by (simp_all add: env_dev_def)
  show ?thesis
    using getSocket_resolution [of env_custom_socket initial] getSocket_resolution [of env_socket initial]
      getSocket_resolution [of env_dev initial] c s d p h
    by (auto simp: initial_def)
qed

text \<open>
  A remark on the first case: the empty string is returned as it is, and being falsy it
  sends the application to host and port.
\<close>

lemma empty_socket_string_listens_on_port:
  "socket (server (conf env)) = Some (JStr []) \<Longrightarrow>
     getSocket env = JStr [] \<and>
     hd (drop (length (trace p)) (trace (start_app env p))) =
       Invoke (ListenPort (port (server (conf env))) (host (server (conf env))))"
  by (auto simp: getSocket_def isString_def start_app_def listening_def startGhost_def
        process_exit_def console_log_def Let_def split: outcome.splits)

subsection \<open>The initialisation chain in normal form\<close>

text \<open>
  Each stage before the last callback appends events that depend on the environment only;
  the chain is the sequence \<open>init_steps\<close> of these stages, and \<open>setup\<close> is that sequence
  followed by the terminal handler or by the last callback.
\<close>


lemma run_step_await: "await env c p = run_step (call_step env c) p"
  by (simp add: await_eq run_step_def call_step_def)

lemma run_step_join_calls:
  "join_calls env b c d p =
     run_step (case join_calls env b c d initial of (r, q) \<Rightarrow> (r, trace q)) p"
  by (auto simp: join_calls_def run_step_def initial_def Let_def emit_def split: outcome.splits)

lemma split_at_settle_append: "split_at_settle k es = (xs, ys) \<Longrightarrow> xs @ ys = es"
  by (induction k es arbitrary: xs ys rule: split_at_settle.induct) (auto split: prod.splits)

lemma run_step_join_dbHash_permissions:
  "join_dbHash_permissions env p = run_step (fan_out_2 env) p"
proof -
  obtain r0 q0 where i: "initDbHashAndFirstRun env initial = (r0, q0)"
    by fastforce
  have q0: "q0 = initial\<lparr>trace := dbHash_events env\<rparr>"
    using initDbHashAndFirstRun_frame [of env initial] i by (simp add: initial_def)
  have ip: "initDbHashAndFirstRun env p = (r0, p\<lparr>trace := trace p @ dbHash_events env\<rparr>)"
    using initDbHashAndFirstRun_frame [of env p] i by simp
  show ?thesis
    unfolding join_dbHash_permissions_def fan_out_2_def i ip q0
    by (simp add: Let_def run_step_def initial_def split: prod.splits outcome.splits)
qed

lemma then_do_run_step:
  "then_do (run_step s p) (\<lambda>_. run_step s') = run_step (seq s s') p"
  by (cases s; cases "fst s") (auto simp: then_do_def run_step_def seq_def)

lemma init_chain_eq: "init_chain env p = run_step (init_steps env) p"
proof -
  have j: "join_calls env (models_first env) ModelsInit (UpdatePaths (url (conf env)))
             (emit (Invoke PolyglotNew) p)
           = run_step (seq (Resolved JUndefined, [Invoke PolyglotNew]) (fan_out_1 env)) p"
    by (subst run_step_join_calls) (simp add: fan_out_1_def run_step_def seq_def emit_def)
  have a: "await env c = run_step (call_step env c)" for c
    by (rule ext) (rule run_step_await)
  have b: "join_dbHash_permissions env = run_step (fan_out_2 env)"
    by (rule ext) (rule run_step_join_dbHash_permissions)
  show ?thesis
    unfolding init_chain_def init_steps_def j a b
    by (simp only: then_do_run_step)
qed

lemma setup_server_eq:
  "setup_server env p =
     (case fst (init_steps env) of
        Rejected e \<Rightarrow> logErrorAndExit e (p\<lparr>trace := trace p @ snd (init_steps env)\<rparr>)
      | Resolved v \<Rightarrow> snd (configure env (p\<lparr>trace := trace p @ snd (init_steps env)\<rparr>)))"
proof -
  have "setup_server env p =
     snd (then_else (init_chain env p) (\<lambda>_. configure env)
            (\<lambda>err q. (Resolved JUndefined, logErrorAndExit err q)))"
    by (simp add: setup_server_def init_chain_def)
  then show ?thesis
    by (simp add: init_chain_eq run_step_def then_else_def split: outcome.splits)
qed


lemma precedes_append:
  "precedes a b (xs @ ys) =
     (if a \<in> set xs then precedes a b xs \<or> b \<in> set ys else precedes a b ys)"
  by (induction xs) auto

lemma precedes_appendI: "precedes a b xs \<Longrightarrow> precedes a b (xs @ ys)"
  by (induction xs) auto

lemma precedes_in_front: "a \<in> set xs \<Longrightarrow> precedes a b (xs @ b # ys)"
  by (simp add: precedes_append)

lemma dbHash_events_are: "e \<in> set (dbHash_events env) \<Longrightarrow> dbHash_event e"
  by (auto simp: dbHash_events_eq Let_def split: sum.splits outcome.splits)

lemma dbHash_event_fan_out: "dbHash_event e \<Longrightarrow> fan_out_event e"
  by (cases e) auto

lemma fan_out_call_init: "fan_out_call c \<Longrightarrow> init_call c"
  by (cases c) simp_all

lemma fan_out_event_init: "fan_out_event e \<Longrightarrow> init_event e"
  by (cases e) (auto intro: fan_out_call_init)

lemma fan_out_2_cases:
  obtains xs ys where
    "Invoke (SettingsRead ''dbHash'') # xs @ ys = dbHash_events env"
    "fan_out_2 env =
       (case fst (initDbHashAndFirstRun env initial) of
          Rejected e \<Rightarrow>
            (if ys = [] then (Rejected e, Invoke (SettingsRead ''dbHash'') # Invoke PermissionsInit # xs)
             else (case respond env PermissionsInit of
                     Rejected e' \<Rightarrow>
                       (Rejected e', Invoke (SettingsRead ''dbHash'') # Invoke PermissionsInit # xs
                          @ [Settle PermissionsInit (Rejected e')])
                   | Resolved w \<Rightarrow>
                       (Rejected e, Invoke (SettingsRead ''dbHash'') # Invoke PermissionsInit # xs
                          @ Settle PermissionsInit (Resolved w) # ys)))
        | Resolved v \<Rightarrow>
            (case respond env PermissionsInit of
               Rejected e' \<Rightarrow>
                 (Rejected e', Invoke (SettingsRead ''dbHash'') # Invoke PermissionsInit # xs
                    @ [Settle PermissionsInit (Rejected e')])
             | Resolved w \<Rightarrow>
                 (Resolved (JArray [v, w]), Invoke (SettingsRead ''dbHash'') # Invoke PermissionsInit # xs
                    @ Settle PermissionsInit (Resolved w) # ys)))"
proof -
  obtain es where es: "dbHash_events env = Invoke (SettingsRead ''dbHash'') # es"
    by (simp add: dbHash_events_eq Let_def)
  obtain xs ys where sp: "split_at_settle (permissions_after env) es = (xs, ys)"
    by (cases "split_at_settle (permissions_after env) es")
  have app: "xs @ ys = es" using sp by (rule split_at_settle_append)
  obtain r0 q0 where i: "initDbHashAndFirstRun env initial = (r0, q0)"
    by fastforce
  have q0: "q0 = initial\<lparr>trace := dbHash_events env\<rparr>"
    using initDbHashAndFirstRun_frame [of env initial] i by (simp add: initial_def)
  have "Invoke (SettingsRead ''dbHash'') # xs @ ys = dbHash_events env"
    using es app by simp
  moreover have "fan_out_2 env =
       (case fst (initDbHashAndFirstRun env initial) of
          Rejected e \<Rightarrow>
            (if ys = [] then (Rejected e, Invoke (SettingsRead ''dbHash'') # Invoke PermissionsInit # xs)
             else (case respond env PermissionsInit of
                     Rejected e' \<Rightarrow>
                       (Rejected e', Invoke (SettingsRead ''dbHash'') # Invoke PermissionsInit # xs
                          @ [Settle PermissionsInit (Rejected e')])
                   | Resolved w \<Rightarrow>
                       (Rejected e, Invoke (SettingsRead ''dbHash'') # Invoke PermissionsInit # xs
                          @ Settle PermissionsInit (Resolved w) # ys)))
        | Resolved v \<Rightarrow>
            (case respond env PermissionsInit of
               Rejected e' \<Rightarrow>
                 (Rejected e', Invoke (SettingsRead ''dbHash'') # Invoke PermissionsInit # xs
                    @ [Settle PermissionsInit (Rejected e')])
             | Resolved w \<Rightarrow>
                 (Resolved (JArray [v, w]), Invoke (SettingsRead ''dbHash'') # Invoke PermissionsInit # xs
                    @ Settle PermissionsInit (Resolved w) # ys)))"
    unfolding fan_out_2_def join_dbHash_permissions_def i q0
    using es sp by (simp add: Let_def initial_def split: outcome.splits)
  ultimately show ?thesis by (rule that)
qed


lemma fan_out_2_shape:
  obtains es where
    "snd (fan_out_2 env) = Invoke (SettingsRead ''dbHash'') # Invoke PermissionsInit # es"
    "\<forall>e\<in>set es. fan_out_event e"
proof -
  obtain xs ys where d: "Invoke (SettingsRead ''dbHash'') # xs @ ys = dbHash_events env"
    and f: "fan_out_2 env =
       (case fst (initDbHashAndFirstRun env initial) of
          Rejected e \<Rightarrow>
            (if ys = [] then (Rejected e, Invoke (SettingsRead ''dbHash'') # Invoke PermissionsInit # xs)
             else (case respond env PermissionsInit of
                     Rejected e' \<Rightarrow>
                       (Rejected e', Invoke (SettingsRead ''dbHash'') # Invoke PermissionsInit # xs
                          @ [Settle PermissionsInit (Rejected e')])
                   | Resolved w \<Rightarrow>
                       (Rejected e, Invoke (SettingsRead ''dbHash'') # Invoke PermissionsInit # xs
                          @ Settle PermissionsInit (Resolved w) # ys)))
        | Resolved v \<Rightarrow>
            (case respond env PermissionsInit of
               Rejected e' \<Rightarrow>
                 (Rejected e', Invoke (SettingsRead ''dbHash'') # Invoke PermissionsInit # xs
                    @ [Settle PermissionsInit (Rejected e')])
             | Resolved w \<Rightarrow>
                 (Resolved (JArray [v, w]), Invoke (SettingsRead ''dbHash'') # Invoke PermissionsInit # xs
                    @ Settle PermissionsInit (Resolved w) # ys)))"
    by (rule fan_out_2_cases)
  have "\<forall>e\<in>set (xs @ ys). dbHash_event e"
    using dbHash_events_are [of _ env] d [symmetric] by simp
  then have x: "\<forall>e\<in>set xs. fan_out_event e" and y: "\<forall>e\<in>set ys. fan_out_event e"
    by (auto intro: dbHash_event_fan_out)
  show ?thesis
    by (rule that [of "tl (tl (snd (fan_out_2 env)))"])
       (use x y in \<open>auto simp: f split: outcome.splits\<close>)
qed

lemma fan_out_2_resolved:
  assumes "fst (fan_out_2 env) = Resolved v"
  obtains xs ys w x where
    "snd (fan_out_2 env) = Invoke (SettingsRead ''dbHash'') # Invoke PermissionsInit # xs
        @ Settle PermissionsInit (Resolved w) # ys"
    "Invoke (SettingsRead ''dbHash'') # xs @ ys = dbHash_events env"
    "fst (initDbHashAndFirstRun env initial) = Resolved x"
proof -
  obtain xs ys where d: "Invoke (SettingsRead ''dbHash'') # xs @ ys = dbHash_events env"
    and f: "fan_out_2 env =
       (case fst (initDbHashAndFirstRun env initial) of
          Rejected e \<Rightarrow>
            (if ys = [] then (Rejected e, Invoke (SettingsRead ''dbHash'') # Invoke PermissionsInit # xs)
             else (case respond env PermissionsInit of
                     Rejected e' \<Rightarrow>
                       (Rejected e', Invoke (SettingsRead ''dbHash'') # Invoke PermissionsInit # xs
                          @ [Settle PermissionsInit (Rejected e')])
                   | Resolved w \<Rightarrow>
                       (Rejected e, Invoke (SettingsRead ''dbHash'') # Invoke PermissionsInit # xs
                          @ Settle PermissionsInit (Resolved w) # ys)))
        | Resolved v \<Rightarrow>
            (case respond env PermissionsInit of
               Rejected e' \<Rightarrow>
                 (Rejected e', Invoke (SettingsRead ''dbHash'') # Invoke PermissionsInit # xs
                    @ [Settle PermissionsInit (Rejected e')])
             | Resolved w \<Rightarrow>
                 (Resolved (JArray [v, w]), Invoke (SettingsRead ''dbHash'') # Invoke PermissionsInit # xs
                    @ Settle PermissionsInit (Resolved w) # ys)))"
    by (rule fan_out_2_cases)
  from assms f obtain x w where
    "fst (initDbHashAndFirstRun env initial) = Resolved x"
    "snd (fan_out_2 env) = Invoke (SettingsRead ''dbHash'') # Invoke PermissionsInit # xs
        @ Settle PermissionsInit (Resolved w) # ys"
    by (auto split: outcome.splits if_splits)
  with d show ?thesis by (auto intro: that)
qed

lemma init_steps_events: "e \<in> set (snd (init_steps env)) \<Longrightarrow> init_event e"
proof -
  obtain es where "snd (fan_out_2 env) = Invoke (SettingsRead ''dbHash'') # Invoke PermissionsInit # es"
    "\<forall>e\<in>set es. fan_out_event e"
    by (rule fan_out_2_shape)
  then show "e \<in> set (snd (init_steps env)) \<Longrightarrow> init_event e"
    by (auto simp: init_steps_def seq_def call_step_def fan_out_1_def join_calls_def Let_def
          initial_def emit_def intro: fan_out_event_init split: if_splits outcome.splits)
qed

lemma start_app_events:
  "\<exists>es. trace (start_app env q) = trace q @ es \<and> (\<forall>e\<in>set es. \<not> init_event e)"
  by (auto simp: start_app_def listening_def startGhost_def process_exit_def console_log_def Let_def
        split: outcome.splits)

lemma configure_events:
  "\<exists>es. trace (snd (configure env q)) = trace q @ es \<and> (\<forall>e\<in>set es. \<not> init_event e)"
proof -
  obtain es where "trace (start_app env q') = trace q' @ es" "\<forall>e\<in>set es. \<not> init_event e"
    if "q' = q\<lparr>trace := trace q @ [Invoke MimeDefine, Invoke ServerSetViewEngine, Invoke HbsCreate,
          Invoke ServerSetAdminViewEngine, Invoke LoadCoreHelpers, Invoke (Middleware (dbHash q)),
          Invoke RoutesApi, Invoke RoutesAdmin, Invoke RoutesFrontend, Invoke PluginsInit,
          Settle PluginsInit (respond env PluginsInit)]\<rparr>" for q'
    using start_app_events by metis
  then show ?thesis
    by (auto simp: configure_def chain_defs Let_def emit_def split: outcome.splits prod.splits)
qed

lemma setup_server_trace:
  obtains es where
    "trace (setup_server env initial) = snd (init_steps env) @ es"
    "\<forall>e\<in>set es. \<not> init_event e"
proof -
  obtain es where "trace (snd (configure env (initial\<lparr>trace := trace initial @ snd (init_steps env)\<rparr>)))
      = snd (init_steps env) @ es" "\<forall>e\<in>set es. \<not> init_event e"
    using configure_events [of env "initial\<lparr>trace := trace initial @ snd (init_steps env)\<rparr>"]
    by (auto simp: initial_def)
  then show ?thesis
    by (cases "fst (init_steps env)")
       (auto simp: setup_server_eq logErrorAndExit_def initial_def intro: that)
qed


subsection \<open>Order of the initialisation stages\<close>

lemmas init_steps_unfold =
  init_steps_def seq_def call_step_def fan_out_1_def join_calls_def Let_def initial_def emit_def

lemma init_steps_start:
  "\<exists>es. snd (init_steps env) =
     Invoke PolyglotNew # Invoke ModelsInit # Invoke (UpdatePaths (url (conf env))) # es"
  by (auto simp: init_steps_unfold split: outcome.splits)

lemma populate_after_fan_out_1:
  assumes "Invoke PopulateDefaults \<in> set (snd (init_steps env))"
  shows "\<exists>v w. precedes (Settle ModelsInit (Resolved v)) (Invoke PopulateDefaults) (snd (init_steps env))
    \<and> precedes (Settle (UpdatePaths (url (conf env))) (Resolved w)) (Invoke PopulateDefaults)
        (snd (init_steps env))"
proof -
  obtain es where "snd (fan_out_2 env) = Invoke (SettingsRead ''dbHash'') # Invoke PermissionsInit # es"
    "\<forall>e\<in>set es. fan_out_event e"
    by (rule fan_out_2_shape)
  with assms show ?thesis
    by (auto simp: init_steps_unfold precedes_append split: if_splits outcome.splits)
qed

lemma fan_out_2_after_settings:
  assumes "Invoke (SettingsRead ''dbHash'') \<in> set (snd (init_steps env))
           \<or> Invoke PermissionsInit \<in> set (snd (init_steps env))"
  shows "(\<exists>v w. precedes (Settle ApiInit (Resolved v)) (Invoke (SettingsRead ''dbHash'')) (snd (init_steps env))
           \<and> precedes (Settle ThemeUpdate (Resolved w)) (Invoke (SettingsRead ''dbHash''))
               (snd (init_steps env)))
    \<and> (\<exists>xs ys. snd (init_steps env) = xs @ Invoke (SettingsRead ''dbHash'') # Invoke PermissionsInit # ys
           \<and> (\<forall>e\<in>set xs. \<not> fan_out_event e))"
proof -
  obtain es where es: "snd (fan_out_2 env) = Invoke (SettingsRead ''dbHash'') # Invoke PermissionsInit # es"
    "\<forall>e\<in>set es. fan_out_event e"
    by (rule fan_out_2_shape)
  define pre where "pre = [Invoke PolyglotNew, Invoke ModelsInit, Invoke (UpdatePaths (url (conf env))),
     Settle (if models_first env then ModelsInit else UpdatePaths (url (conf env)))
       (respond env (if models_first env then ModelsInit else UpdatePaths (url (conf env)))),
     Settle (if models_first env then UpdatePaths (url (conf env)) else ModelsInit)
       (respond env (if models_first env then UpdatePaths (url (conf env)) else ModelsInit)),
     Invoke PopulateDefaults, Settle PopulateDefaults (respond env PopulateDefaults),
     Invoke ApiInit, Settle ApiInit (respond env ApiInit),
     Invoke ThemeUpdate, Settle ThemeUpdate (respond env ThemeUpdate)]"
  have r: "is_resolved (respond env ApiInit) \<and> is_resolved (respond env ThemeUpdate)
      \<and> (\<exists>ys. snd (init_steps env) = pre @ Invoke (SettingsRead ''dbHash'') # Invoke PermissionsInit # ys)"
    using assms es
    by (auto simp: init_steps_unfold pre_def split: if_splits outcome.splits)
  then obtain ys v w where
    t: "snd (init_steps env) = pre @ Invoke (SettingsRead ''dbHash'') # Invoke PermissionsInit # ys"
    and a: "respond env ApiInit = Resolved v" and b: "respond env ThemeUpdate = Resolved w"
    by (metis is_resolved.elims(2))
  have "precedes (Settle ApiInit (Resolved v)) (Invoke (SettingsRead ''dbHash'')) (snd (init_steps env))"
    unfolding t by (simp add: pre_def a b)
  moreover have "precedes (Settle ThemeUpdate (Resolved w)) (Invoke (SettingsRead ''dbHash'')) (snd (init_steps env))"
    unfolding t by (simp add: pre_def a b)
  moreover have "\<forall>e\<in>set pre. \<not> fan_out_event e"
    by (simp add: pre_def)
  ultimately show ?thesis using t by blast
qed

lemma mailer_after_fan_out_2:
  assumes "Invoke MailerInit \<in> set (snd (init_steps env))"
  shows "(\<exists>v. precedes (Settle PermissionsInit (Resolved v)) (Invoke MailerInit) (snd (init_steps env)))
    \<and> (\<exists>w. fst (initDbHashAndFirstRun env initial) = Resolved w)
    \<and> (\<forall>e\<in>set (dbHash_events env). precedes e (Invoke MailerInit) (snd (init_steps env)))"
proof -
  obtain es where es: "snd (fan_out_2 env) = Invoke (SettingsRead ''dbHash'') # Invoke PermissionsInit # es"
    "\<forall>e\<in>set es. fan_out_event e"
    by (rule fan_out_2_shape)
  have "\<exists>pre. snd (init_steps env) = pre @ snd (fan_out_2 env) @ [Invoke MailerInit, Settle MailerInit (respond env MailerInit)]
      \<and> is_resolved (fst (fan_out_2 env))"
    using assms es
    by (auto simp: init_steps_unfold split: if_splits outcome.splits)
  then obtain pre v where
    t: "snd (init_steps env) = pre @ snd (fan_out_2 env) @ [Invoke MailerInit, Settle MailerInit (respond env MailerInit)]"
    and r: "fst (fan_out_2 env) = Resolved v"
    by (metis is_resolved.elims(2))
  from r obtain xs ys w x where
    f: "snd (fan_out_2 env) = Invoke (SettingsRead ''dbHash'') # Invoke PermissionsInit # xs
        @ Settle PermissionsInit (Resolved w) # ys"
    and d: "Invoke (SettingsRead ''dbHash'') # xs @ ys = dbHash_events env"
    and i: "fst (initDbHashAndFirstRun env initial) = Resolved x"
    by (rule fan_out_2_resolved)
  have "Settle PermissionsInit (Resolved w) \<in> set (pre @ snd (fan_out_2 env))"
    by (simp add: f)
  then have p: "precedes (Settle PermissionsInit (Resolved w)) (Invoke MailerInit) (snd (init_steps env))"
    unfolding t by (simp only: append_assoc [symmetric] append.simps precedes_in_front)
  have "precedes e (Invoke MailerInit) (snd (init_steps env))" if "e \<in> set (dbHash_events env)" for e
  proof -
    from that have "e \<in> set (pre @ snd (fan_out_2 env))"
      unfolding d [symmetric] f by auto
    then show ?thesis
      unfolding t by (simp only: append_assoc [symmetric] append.simps precedes_in_front)
  qed
  with p i show ?thesis by blast
qed


lemmas run_defs =
  setup_server_def configure_def start_app_def listening_def startGhost_def process_exit_def
  console_log_def logErrorAndExit_def join_calls_def join_dbHash_permissions_def
  initDbHashAndFirstRun_eq read_dbHash_def prop_get_def chain_defs getSocket_def isString_def
  dbHash_def dbHash_of_def initial_def emit_def Let_def

subsection \<open>The trace of setup\<close>

lemma registered_append: "registered (xs @ ys) = registered xs @ registered ys"
  by (induction xs rule: registered.induct) simp_all

lemma handled_append: "handled (xs @ ys) = handled xs @ handled ys"
  by (induction xs rule: handled.induct) simp_all

lemma logged_append: "logged (xs @ ys) = logged xs @ logged ys"
  by (induction xs rule: logged.induct) simp_all

lemma init_events_silent:
  assumes "\<forall>e\<in>set xs. init_event e"
  shows "registered xs = []" "handled xs = []" "logged xs = []"
    "\<not> list_ex is_listen xs" "\<not> list_ex is_listening xs"
proof -
  have c: "init_event e \<Longrightarrow> registered [e] = [] \<and> handled [e] = [] \<and> logged [e] = []
      \<and> \<not> is_listen e \<and> \<not> is_listening e" for e
  proof (cases e)
    case (Invoke c)
    then show "init_event e \<Longrightarrow> ?thesis" by (cases c) simp_all
  next
    case (Settle c r)
    then show "init_event e \<Longrightarrow> ?thesis" by (cases c; cases r) simp_all
  next
    case (AssignDbHash v)
    then show ?thesis by simp
  qed
  have "registered xs = [] \<and> handled xs = [] \<and> logged xs = []
      \<and> \<not> list_ex is_listen xs \<and> \<not> list_ex is_listening xs"
    using assms
  proof (induction xs)
    case Nil
    then show ?case by simp
  next
    case (Cons e xs)
    then have "init_event e" by simp
    from c [OF this] Cons show ?case
      using registered_append [of "[e]" xs] handled_append [of "[e]" xs] logged_append [of "[e]" xs]
      by simp
  qed
  then show "registered xs = []" "handled xs = []" "logged xs = []"
    "\<not> list_ex is_listen xs" "\<not> list_ex is_listening xs"
    by simp_all
qed

lemma init_steps_silent:
  "registered (snd (init_steps env)) = []" "handled (snd (init_steps env)) = []"
  "logged (snd (init_steps env)) = []"
  "\<not> list_ex is_listen (snd (init_steps env))" "\<not> list_ex is_listening (snd (init_steps env))"
  using init_events_silent [of "snd (init_steps env)"] init_steps_events [of _ env] by blast+

text \<open>
  \<open>setup\<close> by cases: the terminal handler after a rejected initialisation; otherwise the
  configuration calls, the plugin initialisation and, when that is resolved, the start of
  the application.
\<close>

lemma setup_server_cases:
  "setup_server env initial =
     (case fst (init_steps env) of
        Rejected e \<Rightarrow>
          \<lparr>trace = snd (init_steps env) @ [Invoke (LogErrorAndExit e)],
           status = TerminatedByErrorHandler\<rparr>
      | Resolved v \<Rightarrow>
          (let q = \<lparr>trace = snd (init_steps env) @
                      [Invoke MimeDefine, Invoke ServerSetViewEngine, Invoke HbsCreate,
                       Invoke ServerSetAdminViewEngine, Invoke LoadCoreHelpers,
                       Invoke (Middleware (dbHash_of (snd (init_steps env)))),
                       Invoke RoutesApi, Invoke RoutesAdmin, Invoke RoutesFrontend,
                       Invoke PluginsInit, Settle PluginsInit (respond env PluginsInit)],
                    status = Running\<rparr>
           in case respond env PluginsInit of
                Rejected e \<Rightarrow> q
              | Resolved w \<Rightarrow> start_app env q))"
  by (simp add: setup_server_eq configure_def chain_defs logErrorAndExit_def initial_def dbHash_def
        emit_def Let_def split: outcome.splits)



lemma start_app_frame:
  "status q = Running \<Longrightarrow>
     start_app env q = \<lparr>trace = trace q @ start_events env, status = status (start_app env initial)\<rparr>"
  by (cases q)
     (auto simp: start_events_def start_app_def listening_def startGhost_def process_exit_def
        console_log_def Let_def emit_def initial_def split: outcome.splits)

lemma start_events_are: "e \<in> set (start_events env) \<Longrightarrow> start_event e"
  by (auto simp: start_events_def start_app_def listening_def startGhost_def process_exit_def
        console_log_def Let_def emit_def initial_def split: outcome.splits if_splits)

text \<open>
  The trace of \<open>setup\<close>: events of initialisation and configuration, then, when the
  initialisation and the plugins are resolved, the events of starting the application.
\<close>

lemma setup_server_split:
  obtains pre where
    "trace (setup_server env initial) =
       pre @ (if is_resolved (fst (init_steps env)) \<and> is_resolved (respond env PluginsInit)
              then start_events env else [])"
    "\<forall>e\<in>set pre. \<not> start_event e"
    "status (setup_server env initial) =
       (if is_resolved (fst (init_steps env)) then
          if is_resolved (respond env PluginsInit) then status (start_app env initial) else Running
        else TerminatedByErrorHandler)"
proof -
  have i: "\<forall>e\<in>set (snd (init_steps env)). \<not> start_event e"
  proof
    fix e assume "e \<in> set (snd (init_steps env))"
    then have "init_event e" by (rule init_steps_events)
    then show "\<not> start_event e"
    proof (cases e)
      case (Invoke c)
      then show "init_event e \<Longrightarrow> ?thesis" by (cases c) simp_all
    next
      case (Settle c r)
      then show "init_event e \<Longrightarrow> ?thesis" by (cases c) simp_all
    next
      case (AssignDbHash v)
      then show ?thesis by simp
    qed
  qed
  show ?thesis
  proof (cases "fst (init_steps env)")
    case (Rejected e)
    show ?thesis
      by (rule that [of "snd (init_steps env) @ [Invoke (LogErrorAndExit e)]"])
         (use i Rejected in \<open>auto simp: setup_server_cases\<close>)
  next
    case (Resolved v)
    show ?thesis
      by (rule that [of "snd (init_steps env) @
                      [Invoke MimeDefine, Invoke ServerSetViewEngine, Invoke HbsCreate,
                       Invoke ServerSetAdminViewEngine, Invoke LoadCoreHelpers,
                       Invoke (Middleware (dbHash_of (snd (init_steps env)))),
                       Invoke RoutesApi, Invoke RoutesAdmin, Invoke RoutesFrontend,
                       Invoke PluginsInit, Settle PluginsInit (respond env PluginsInit)]"])
         (use i Resolved in \<open>auto simp: setup_server_cases start_app_frame Let_def split: outcome.splits\<close>)
  qed
qed


lemmas start_unfold =
  start_events_def start_app_def listening_def startGhost_def process_exit_def console_log_def
  listen_target_def Let_def emit_def initial_def

lemma not_start_silent:
  assumes "\<forall>e\<in>set xs. \<not> start_event e"
  shows "registered xs = []" "logged xs = []"
    "\<not> list_ex is_listen xs" "\<not> list_ex is_listening xs" "guarded (xs @ ys) = guarded ys"
proof -
  have c: "\<not> start_event e \<Longrightarrow> registered [e] = [] \<and> logged [e] = []
      \<and> \<not> is_listen e \<and> \<not> is_listening e" for e
  proof (cases e)
    case (Invoke c)
    then show "\<not> start_event e \<Longrightarrow> ?thesis" by (cases c) simp_all
  next
    case (Settle c r)
    then show "\<not> start_event e \<Longrightarrow> ?thesis" by (cases c; cases r) simp_all
  next
    case (AssignDbHash v)
    then show ?thesis by simp
  qed
  have "registered xs = [] \<and> logged xs = []
      \<and> \<not> list_ex is_listen xs \<and> \<not> list_ex is_listening xs \<and> guarded (xs @ ys) = guarded ys"
    using assms
  proof (induction xs)
    case Nil
    then show ?case by simp
  next
    case (Cons e xs)
    then have "\<not> start_event e" by simp
    from c [OF this] Cons show ?case
      using registered_append [of "[e]" xs] logged_append [of "[e]" xs]
      by simp
  qed
  then show "registered xs = []" "logged xs = []"
    "\<not> list_ex is_listen xs" "\<not> list_ex is_listening xs" "guarded (xs @ ys) = guarded ys"
    by simp_all
qed

lemma precedes_skip:
  "\<forall>e\<in>set xs. \<not> start_event e \<Longrightarrow> start_event a \<Longrightarrow> precedes a b (xs @ ys) = precedes a b ys"
  by (auto simp: precedes_append)

lemma not_init_notin: "\<not> init_event e \<Longrightarrow> e \<notin> set (snd (init_steps env))"
  using init_steps_events by blast

lemma guarded_take:
  "guarded t \<Longrightarrow> \<not> list_ex is_listen (take k t) \<Longrightarrow> registered (take k t) = []"
proof (induction t arbitrary: k)
  case Nil
  then show ?case by simp
next
  case (Cons e t)
  show ?case
  proof (cases k)
    case 0
    then show ?thesis by simp
  next
    case (Suc j)
    with Cons.prems have "\<not> is_listen e" "\<not> list_ex is_listen (take j t)" by simp_all
    with Cons.prems have "registered [e] = []" "guarded t" by simp_all
    with Cons.IH [of j] \<open>\<not> list_ex is_listen (take j t)\<close> Suc
    show ?thesis using registered_append [of "[e]" "take j t"] by simp
  qed
qed

lemma start_events_guarded: "guarded (start_events env)"
  by (simp add: start_unfold split: outcome.splits)

lemma start_events_registered:
  assumes "Invoke (ProcessOnSIGINT h) \<in> set (start_events env)"
  shows "semver_satisfies env (node_version env) (engines_node env)
    \<and> is_resolved (respond env (listen_target env))
    \<and> precedes (Invoke (listen_target env))
        (Settle (listen_target env) (respond env (listen_target env))) (start_events env)
    \<and> precedes (Settle (listen_target env) (respond env (listen_target env)))
        (Invoke (ProcessOnSIGINT h)) (start_events env)"
  using assms by (auto simp: start_unfold split: outcome.splits if_splits)

lemma listen_target_call: "listen_call (listen_target env)"
  by (simp add: listen_target_def)


subsection \<open>The interrupt handler\<close>

text \<open>
  Claim C10. At every point of a run before \<open>server.listen\<close> has been called, no interrupt
  listener of the module is registered, and an interrupt delivered there to the running
  process has its default effect: no code of the module runs. A listener is registered only by \<open>startGhost\<close>: the
  version check has passed, and the registration comes after the \<open>listening\<close> event of a
  listen call issued before.
\<close>

theorem sigint_handler_only_after_listen:
  "(\<forall>k. \<not> list_ex is_listen (take k (trace (setup_server env initial))) \<longrightarrow>
        registered (take k (trace (setup_server env initial))) = []
        \<and> (\<forall>uptime. SIGINT uptime (at_event k (setup_server env initial)) =
              (if status (at_event k (setup_server env initial)) = Running
               then \<lparr>trace = take k (trace (setup_server env initial)), status = KilledBySignal\<rparr>
               else at_event k (setup_server env initial))))
   \<and> (\<forall>h. Invoke (ProcessOnSIGINT h) \<in> set (trace (setup_server env initial)) \<longrightarrow>
        semver_satisfies env (node_version env) (engines_node env)
        \<and> (\<exists>c v. listen_call c
              \<and> precedes (Invoke c) (Settle c (Resolved v)) (trace (setup_server env initial))
              \<and> precedes (Settle c (Resolved v)) (Invoke (ProcessOnSIGINT h))
                   (trace (setup_server env initial))))"
proof -
  obtain pre where
    t: "trace (setup_server env initial) =
       pre @ (if is_resolved (fst (init_steps env)) \<and> is_resolved (respond env PluginsInit)
              then start_events env else [])"
    and pre: "\<forall>e\<in>set pre. \<not> start_event e"
    by (rule setup_server_split)
  have g: "guarded (trace (setup_server env initial))"
    unfolding t by (simp add: not_start_silent(5) [OF pre] start_events_guarded)
  have a: "registered (take k (trace (setup_server env initial))) = []"
    if "\<not> list_ex is_listen (take k (trace (setup_server env initial)))" for k
    using g that by (rule guarded_take)
  have b: "semver_satisfies env (node_version env) (engines_node env)
        \<and> (\<exists>c v. listen_call c
              \<and> precedes (Invoke c) (Settle c (Resolved v)) (trace (setup_server env initial))
              \<and> precedes (Settle c (Resolved v)) (Invoke (ProcessOnSIGINT h))
                   (trace (setup_server env initial)))"
    if h: "Invoke (ProcessOnSIGINT h) \<in> set (trace (setup_server env initial))" for h
  proof -
    have "Invoke (ProcessOnSIGINT h) \<notin> set pre" using pre by auto
    with h have s: "trace (setup_server env initial) = pre @ start_events env"
      and i: "Invoke (ProcessOnSIGINT h) \<in> set (start_events env)"
      unfolding t by (auto split: if_splits)
    from start_events_registered [OF i] obtain v where
      "semver_satisfies env (node_version env) (engines_node env)"
      "respond env (listen_target env) = Resolved v"
      "precedes (Invoke (listen_target env)) (Settle (listen_target env) (Resolved v)) (start_events env)"
      "precedes (Settle (listen_target env) (Resolved v)) (Invoke (ProcessOnSIGINT h)) (start_events env)"
      by (cases "respond env (listen_target env)") auto
    moreover have "start_call (listen_target env)"
      by (simp add: listen_target_def)
    ultimately have "semver_satisfies env (node_version env) (engines_node env)"
      "precedes (Invoke (listen_target env)) (Settle (listen_target env) (Resolved v))
         (pre @ start_events env)"
      "precedes (Settle (listen_target env) (Resolved v)) (Invoke (ProcessOnSIGINT h))
         (pre @ start_events env)"
      by (simp_all add: precedes_skip [OF pre])
    then show ?thesis
      unfolding s using listen_target_call [of env] by blast
  qed
  from a b show ?thesis
    by (simp add: SIGINT_def at_event_def)
qed

subsection \<open>Socket mode\<close>

lemma start_events_socket:
  "Invoke (ListenSocket path) \<in> set (start_events env) \<Longrightarrow>
     path = getSocket env \<and> truthy path
     \<and> precedes (Invoke (FsUnlink path)) (Invoke (ListenSocket path)) (start_events env)
     \<and> precedes (Invoke (ListenSocket path)) (Invoke (FsChmod path ''0744'')) (start_events env)"
  by (auto simp: start_unfold split: outcome.splits if_splits)

lemma start_events_socket_mode:
  "truthy (getSocket env) \<Longrightarrow> Invoke (ListenSocket (getSocket env)) \<in> set (start_events env)"
  by (auto simp: start_unfold split: outcome.splits if_splits)

lemma plugins_resolved_start:
  assumes "Settle PluginsInit (Resolved v) \<in> set (trace (setup_server env initial))"
  shows "is_resolved (fst (init_steps env)) \<and> is_resolved (respond env PluginsInit)"
proof -
  have n: "Settle PluginsInit (Resolved v) \<notin> set (snd (init_steps env))"
    by (rule not_init_notin) simp
  have "\<not> start_event (Settle PluginsInit (Resolved v))" by simp
  then have m: "Settle PluginsInit (Resolved v) \<notin> set (start_events env)"
    using start_events_are by blast
  show ?thesis
    using assms n m
    by (cases "fst (init_steps env)"; cases "respond env PluginsInit")
       (auto simp: setup_server_cases start_app_frame Let_def)
qed

lemma start_events_socket_segment:
  assumes "Invoke (ListenSocket path) \<in> set (start_events env)"
  shows "start_events env =
           Invoke (FsUnlink path) # Settle (FsUnlink path) (respond env (FsUnlink path))
           # Invoke (ListenSocket path) # Invoke (FsChmod path ''0744'')
           # drop 4 (start_events env)
         \<and> \<not> list_ex is_listen (drop 4 (start_events env))"
proof (cases "truthy (getSocket env)")
  case True
  with assms have p: "path = getSocket env"
    by (cases "respond env (ListenSocket (getSocket env))")
       (auto simp: start_unfold split: if_splits)
  show ?thesis
    unfolding p using True
    by (cases "respond env (ListenSocket (getSocket env))")
       (simp_all add: start_unfold)
next
  case False
  with assms show ?thesis
    by (cases "respond env (ListenPort (port (server (conf env))) (host (server (conf env))))")
       (auto simp: start_unfold split: if_splits)
qed

lemma not_start_not_listen: "\<not> start_event e \<Longrightarrow> \<not> is_listen e"
proof (cases e)
  case (Invoke c)
  then show "\<not> start_event e \<Longrightarrow> ?thesis" by (cases c) simp_all
qed simp_all

text \<open>
  Claim C7. Whenever \<open>server.listen\<close> is called on a socket path, the path is the one that
  \<open>getSocket\<close> resolves; \<open>fs.unlink\<close> has been called on that path and its callback has been
  delivered before: the unlink call, the settlement of the unlink, the listen call and the
  call of \<open>fs.chmod\<close> on that path with mode \<open>0744\<close> follow one another in the run with
  nothing in between, and \<open>server.listen\<close> is called nowhere else, neither before the
  unlink has settled nor later. Every run that gets to start the application (the plugins
  are resolved) with a socket configured does call \<open>server.listen\<close> on it.
\<close>

theorem socket_unlinked_before_listen:
  "(\<forall>path. Invoke (ListenSocket path) \<in> set (trace (setup_server env initial)) \<longrightarrow>
       path = getSocket env \<and> truthy path
       \<and> precedes (Invoke (FsUnlink path)) (Invoke (ListenSocket path))
            (trace (setup_server env initial))
       \<and> precedes (Invoke (ListenSocket path)) (Invoke (FsChmod path ''0744''))
            (trace (setup_server env initial))
       \<and> precedes (Invoke (FsUnlink path)) (Settle (FsUnlink path) (respond env (FsUnlink path)))
            (trace (setup_server env initial))
       \<and> precedes (Settle (FsUnlink path) (respond env (FsUnlink path))) (Invoke (ListenSocket path))
            (trace (setup_server env initial))
       \<and> (\<exists>xs ys. trace (setup_server env initial) =
              xs @ Invoke (FsUnlink path) # Settle (FsUnlink path) (respond env (FsUnlink path))
                 # Invoke (ListenSocket path) # Invoke (FsChmod path ''0744'') # ys
            \<and> (\<forall>e\<in>set xs. \<not> is_listen e) \<and> (\<forall>e\<in>set ys. \<not> is_listen e)))
   \<and> (\<forall>v. Settle PluginsInit (Resolved v) \<in> set (trace (setup_server env initial))
          \<and> truthy (getSocket env) \<longrightarrow>
        Invoke (ListenSocket (getSocket env)) \<in> set (trace (setup_server env initial)))"
proof -
  obtain pre where
    t: "trace (setup_server env initial) =
       pre @ (if is_resolved (fst (init_steps env)) \<and> is_resolved (respond env PluginsInit)
              then start_events env else [])"
    and pre: "\<forall>e\<in>set pre. \<not> start_event e"
    by (rule setup_server_split)
  have a: "path = getSocket env \<and> truthy path
       \<and> precedes (Invoke (FsUnlink path)) (Invoke (ListenSocket path))
            (trace (setup_server env initial))
       \<and> precedes (Invoke (ListenSocket path)) (Invoke (FsChmod path ''0744''))
            (trace (setup_server env initial))
       \<and> precedes (Invoke (FsUnlink path)) (Settle (FsUnlink path) (respond env (FsUnlink path)))
            (trace (setup_server env initial))
       \<and> precedes (Settle (FsUnlink path) (respond env (FsUnlink path))) (Invoke (ListenSocket path))
            (trace (setup_server env initial))
       \<and> (\<exists>xs ys. trace (setup_server env initial) =
              xs @ Invoke (FsUnlink path) # Settle (FsUnlink path) (respond env (FsUnlink path))
                 # Invoke (ListenSocket path) # Invoke (FsChmod path ''0744'') # ys
            \<and> (\<forall>e\<in>set xs. \<not> is_listen e) \<and> (\<forall>e\<in>set ys. \<not> is_listen e))"
    if l: "Invoke (ListenSocket path) \<in> set (trace (setup_server env initial))" for path
  proof -
    have "Invoke (ListenSocket path) \<notin> set pre" using pre by auto
    with l have s: "trace (setup_server env initial) = pre @ start_events env"
      and i: "Invoke (ListenSocket path) \<in> set (start_events env)"
      unfolding t by (auto split: if_splits)
    define ys where "ys = drop 4 (start_events env)"
    from start_events_socket_segment [OF i] have
      ys: "start_events env =
           Invoke (FsUnlink path) # Settle (FsUnlink path) (respond env (FsUnlink path))
           # Invoke (ListenSocket path) # Invoke (FsChmod path ''0744'') # ys"
      and nl: "\<forall>e\<in>set ys. \<not> is_listen e"
      unfolding ys_def by (simp_all add: list_ex_iff)
    have p: "\<forall>e\<in>set pre. \<not> is_listen e"
      using pre not_start_not_listen by blast
    have "precedes (Invoke (FsUnlink path)) (Settle (FsUnlink path) (respond env (FsUnlink path)))
            (trace (setup_server env initial))"
      "precedes (Settle (FsUnlink path) (respond env (FsUnlink path))) (Invoke (ListenSocket path))
            (trace (setup_server env initial))"
      unfolding s by (simp_all add: precedes_skip [OF pre] ys)
    moreover have "\<exists>xs ys. trace (setup_server env initial) =
              xs @ Invoke (FsUnlink path) # Settle (FsUnlink path) (respond env (FsUnlink path))
                 # Invoke (ListenSocket path) # Invoke (FsChmod path ''0744'') # ys
            \<and> (\<forall>e\<in>set xs. \<not> is_listen e) \<and> (\<forall>e\<in>set ys. \<not> is_listen e)"
      unfolding s ys by (intro exI [of _ pre] exI [of _ ys]) (simp add: p nl)
    moreover from start_events_socket [OF i]
    have "path = getSocket env \<and> truthy path
       \<and> precedes (Invoke (FsUnlink path)) (Invoke (ListenSocket path))
            (trace (setup_server env initial))
       \<and> precedes (Invoke (ListenSocket path)) (Invoke (FsChmod path ''0744''))
            (trace (setup_server env initial))"
      unfolding s by (auto simp: precedes_skip [OF pre])
    ultimately show ?thesis by (elim conjE) simp
  qed
  have b: "Invoke (ListenSocket (getSocket env)) \<in> set (trace (setup_server env initial))"
    if "Settle PluginsInit (Resolved v) \<in> set (trace (setup_server env initial))"
      and "truthy (getSocket env)" for v
    using plugins_resolved_start [OF that(1)] start_events_socket_mode [OF that(2)]
    unfolding t by simp
  from a b show ?thesis by blast
qed

subsection \<open>Runs of the concrete environments\<close>

lemma getSocket_env_socket: "getSocket env_socket = JStr ''/ghost/core/content/production.socket''"
  by (simp add: getSocket_def env_socket_def env_dev_def isString_def env_to_string_def)

lemma trace_env_dev:
  "trace (setup_server env_dev initial) =
     [Invoke PolyglotNew, Invoke ModelsInit, Invoke (UpdatePaths ''http://my-ghost-blog.com''),
      Settle ModelsInit (Resolved JUndefined),
      Settle (UpdatePaths ''http://my-ghost-blog.com'') (Resolved JUndefined),
      Invoke PopulateDefaults, Settle PopulateDefaults (Resolved JUndefined),
      Invoke ApiInit, Settle ApiInit (Resolved JUndefined),
      Invoke ThemeUpdate, Settle ThemeUpdate (Resolved JUndefined),
      Invoke (SettingsRead ''dbHash''), Invoke PermissionsInit,
      Settle (SettingsRead ''dbHash'') (Resolved stored_hash),
      AssignDbHash (JStr ''5f1c62a0''),
      Settle PermissionsInit (Resolved JUndefined),
      Invoke MailerInit, Settle MailerInit (Resolved JUndefined),
      Invoke MimeDefine, Invoke ServerSetViewEngine, Invoke HbsCreate,
      Invoke ServerSetAdminViewEngine, Invoke LoadCoreHelpers,
      Invoke (Middleware (JStr ''5f1c62a0'')),
      Invoke RoutesApi, Invoke RoutesAdmin, Invoke RoutesFrontend,
      Invoke PluginsInit, Settle PluginsInit (Resolved JUndefined),
      Invoke (ListenPort (JStr ''2368'') (JStr ''127.0.0.1'')),
      Settle (ListenPort (JStr ''2368'') (JStr ''127.0.0.1'')) (Resolved JUndefined),
      Invoke (ConsoleLog
        [Styled green ''Ghost is running in development...'',
         Plain (CHR 0x0A # ''Listening on''),
         Plain ''127.0.0.1:2368'',
         Plain (CHR 0x0A # ''Url configured as:''),
         Plain ''http://my-ghost-blog.com'',
         Styled grey (CHR 0x0A # ''Ctrl+C to shut down'')]),
      Invoke (ProcessOnSIGINT development_shutdown)]"
  by (simp add: run_defs env_dev_def stored_hash_def env_to_string_def)

text \<open>
  The development installation: after twenty events nothing listens and no listener is
  registered; the listener is registered at the end of the run.
\<close>

theorem sigint_handler_only_after_listen_witness:
  "\<not> list_ex is_listen (take 20 (trace (setup_server env_dev initial)))
   \<and> registered (take 20 (trace (setup_server env_dev initial))) = []
   \<and> status (SIGINT 3 (at_event 20 (setup_server env_dev initial))) = KilledBySignal
   \<and> Invoke (ProcessOnSIGINT development_shutdown) \<in> set (trace (setup_server env_dev initial))
   \<and> semver_satisfies env_dev (node_version env_dev) (engines_node env_dev)"
proof -
  have a: "\<not> list_ex is_listen (take 20 (trace (setup_server env_dev initial)))"
    and b: "Invoke (ProcessOnSIGINT development_shutdown) \<in> set (trace (setup_server env_dev initial))"
    by (simp_all add: trace_env_dev)
  have c: "status (at_event 20 (setup_server env_dev initial)) = Running"
    by (simp add: at_event_def trace_env_dev)
  show ?thesis
    using sigint_handler_only_after_listen [of env_dev] a b c by auto
qed

text \<open>The production installation on the default socket.\<close>

theorem socket_unlinked_before_listen_witness:
  "Settle PluginsInit (Resolved JUndefined) \<in> set (trace (setup_server env_socket initial))
   \<and> truthy (getSocket env_socket)
   \<and> Invoke (ListenSocket (JStr ''/ghost/core/content/production.socket''))
        \<in> set (trace (setup_server env_socket initial))
   \<and> precedes (Invoke (FsUnlink (JStr ''/ghost/core/content/production.socket'')))
        (Invoke (ListenSocket (JStr ''/ghost/core/content/production.socket'')))
        (trace (setup_server env_socket initial))
   \<and> precedes (Settle (FsUnlink (JStr ''/ghost/core/content/production.socket''))
                 (Resolved JUndefined))
        (Invoke (ListenSocket (JStr ''/ghost/core/content/production.socket'')))
        (trace (setup_server env_socket initial))
   \<and> precedes (Invoke (ListenSocket (JStr ''/ghost/core/content/production.socket'')))
        (Invoke (FsChmod (JStr ''/ghost/core/content/production.socket'') ''0744''))
        (trace (setup_server env_socket initial))"
proof -
  have a: "Settle PluginsInit (Resolved JUndefined) \<in> set (trace (setup_server env_socket initial))"
    by (simp add: run_defs env_socket_def env_dev_def stored_hash_def env_to_string_def)
  have b: "truthy (getSocket env_socket)"
    by (simp add: getSocket_env_socket)
  have c: "respond env_socket (FsUnlink (JStr ''/ghost/core/content/production.socket''))
           = Resolved JUndefined"
    by (simp add: env_socket_def env_dev_def)
  note th = socket_unlinked_before_listen [of env_socket]
  have l: "Invoke (ListenSocket (getSocket env_socket)) \<in> set (trace (setup_server env_socket initial))"
    using th [THEN conjunct2, rule_format, OF conjI [OF a b]] .
  have "precedes (Invoke (FsUnlink (getSocket env_socket))) (Invoke (ListenSocket (getSocket env_socket)))
            (trace (setup_server env_socket initial))
       \<and> precedes (Invoke (ListenSocket (getSocket env_socket)))
            (Invoke (FsChmod (getSocket env_socket) ''0744''))
            (trace (setup_server env_socket initial))
       \<and> precedes (Settle (FsUnlink (getSocket env_socket))
                     (respond env_socket (FsUnlink (getSocket env_socket))))
            (Invoke (ListenSocket (getSocket env_socket)))
            (trace (setup_server env_socket initial))"
    using th [THEN conjunct1, rule_format, OF l] by simp
  then show ?thesis
    using a b l c by (simp add: getSocket_env_socket)
qed

subsection \<open>Order of startup\<close>

text \<open>
  Claim C6. Every run starts by calling \<open>models.init()\<close> and the path computation one
  after the other, before anything settles. The defaults of the settings are populated
  only after both have been resolved. The read of \<open>dbHash\<close> (the first step of the dbHash
  resolution) and \<open>permissions.init()\<close> are called one right after the other, with no event
  of either before them, and only after the settings cache and the theme update have been
  resolved. \<open>mailer.init()\<close> is called only after the permissions promise has been
  resolved and the dbHash resolution has been resolved, with every event of that
  resolution before it.
\<close>

theorem startup_order:
  "(\<exists>es. trace (setup_server env initial) =
        Invoke PolyglotNew # Invoke ModelsInit # Invoke (UpdatePaths (url (conf env))) # es)
   \<and> (Invoke PopulateDefaults \<in> set (trace (setup_server env initial)) \<longrightarrow>
        (\<exists>v w. precedes (Settle ModelsInit (Resolved v)) (Invoke PopulateDefaults)
                  (trace (setup_server env initial))
             \<and> precedes (Settle (UpdatePaths (url (conf env))) (Resolved w)) (Invoke PopulateDefaults)
                  (trace (setup_server env initial))))
   \<and> (Invoke (SettingsRead ''dbHash'') \<in> set (trace (setup_server env initial))
        \<or> Invoke PermissionsInit \<in> set (trace (setup_server env initial)) \<longrightarrow>
        (\<exists>v w. precedes (Settle ApiInit (Resolved v)) (Invoke (SettingsRead ''dbHash''))
                  (trace (setup_server env initial))
             \<and> precedes (Settle ThemeUpdate (Resolved w)) (Invoke (SettingsRead ''dbHash''))
                  (trace (setup_server env initial)))
        \<and> (\<exists>xs ys. trace (setup_server env initial) =
                xs @ Invoke (SettingsRead ''dbHash'') # Invoke PermissionsInit # ys
              \<and> (\<forall>e\<in>set xs. \<not> fan_out_event e)))
   \<and> (Invoke MailerInit \<in> set (trace (setup_server env initial)) \<longrightarrow>
        (\<exists>v. precedes (Settle PermissionsInit (Resolved v)) (Invoke MailerInit)
                (trace (setup_server env initial)))
        \<and> (\<exists>w. fst (initDbHashAndFirstRun env initial) = Resolved w)
        \<and> (\<forall>e\<in>set (dbHash_events env).
              precedes e (Invoke MailerInit) (trace (setup_server env initial))))"
proof -
  obtain es where t: "trace (setup_server env initial) = snd (init_steps env) @ es"
    and es: "\<forall>e\<in>set es. \<not> init_event e"
    by (rule setup_server_trace)
  have m: "e \<in> set (trace (setup_server env initial)) \<longleftrightarrow> e \<in> set (snd (init_steps env))"
    if "init_event e" for e
    unfolding t using es that by auto
  have a: "\<exists>es. trace (setup_server env initial) =
        Invoke PolyglotNew # Invoke ModelsInit # Invoke (UpdatePaths (url (conf env))) # es"
    using init_steps_start [of env] unfolding t by auto
  have b: "\<exists>v w. precedes (Settle ModelsInit (Resolved v)) (Invoke PopulateDefaults)
                  (trace (setup_server env initial))
             \<and> precedes (Settle (UpdatePaths (url (conf env))) (Resolved w)) (Invoke PopulateDefaults)
                  (trace (setup_server env initial))"
    if "Invoke PopulateDefaults \<in> set (trace (setup_server env initial))"
    using populate_after_fan_out_1 [of env] that m [of "Invoke PopulateDefaults"]
    unfolding t by (auto intro: precedes_appendI)
  have c: "(\<exists>v w. precedes (Settle ApiInit (Resolved v)) (Invoke (SettingsRead ''dbHash''))
                  (trace (setup_server env initial))
             \<and> precedes (Settle ThemeUpdate (Resolved w)) (Invoke (SettingsRead ''dbHash''))
                  (trace (setup_server env initial)))
        \<and> (\<exists>xs ys. trace (setup_server env initial) =
                xs @ Invoke (SettingsRead ''dbHash'') # Invoke PermissionsInit # ys
              \<and> (\<forall>e\<in>set xs. \<not> fan_out_event e))"
    if "Invoke (SettingsRead ''dbHash'') \<in> set (trace (setup_server env initial))
        \<or> Invoke PermissionsInit \<in> set (trace (setup_server env initial))"
  proof -
    from that have "Invoke (SettingsRead ''dbHash'') \<in> set (snd (init_steps env))
           \<or> Invoke PermissionsInit \<in> set (snd (init_steps env))"
      using m [of "Invoke (SettingsRead ''dbHash'')"] m [of "Invoke PermissionsInit"] by simp
    from fan_out_2_after_settings [OF this] obtain v w xs ys where
      p: "precedes (Settle ApiInit (Resolved v)) (Invoke (SettingsRead ''dbHash'')) (snd (init_steps env))"
      and q: "precedes (Settle ThemeUpdate (Resolved w)) (Invoke (SettingsRead ''dbHash'')) (snd (init_steps env))"
      and e: "snd (init_steps env) = xs @ Invoke (SettingsRead ''dbHash'') # Invoke PermissionsInit # ys"
      and n: "\<forall>e\<in>set xs. \<not> fan_out_event e"
      by blast
    have "precedes (Settle ApiInit (Resolved v)) (Invoke (SettingsRead ''dbHash''))
                  (trace (setup_server env initial))"
      unfolding t using p by (rule precedes_appendI)
    moreover have "precedes (Settle ThemeUpdate (Resolved w)) (Invoke (SettingsRead ''dbHash''))
                  (trace (setup_server env initial))"
      unfolding t using q by (rule precedes_appendI)
    moreover have "trace (setup_server env initial) =
                xs @ Invoke (SettingsRead ''dbHash'') # Invoke PermissionsInit # (ys @ es)"
      unfolding t e by simp
    ultimately show ?thesis using n by blast
  qed
  have d: "(\<exists>v. precedes (Settle PermissionsInit (Resolved v)) (Invoke MailerInit)
                (trace (setup_server env initial)))
        \<and> (\<exists>w. fst (initDbHashAndFirstRun env initial) = Resolved w)
        \<and> (\<forall>e\<in>set (dbHash_events env).
              precedes e (Invoke MailerInit) (trace (setup_server env initial)))"
    if "Invoke MailerInit \<in> set (trace (setup_server env initial))"
    using mailer_after_fan_out_2 [of env] that m [of "Invoke MailerInit"]
    unfolding t by (auto intro: precedes_appendI)
  from a b c d show ?thesis by blast
qed

lemma dbHash_events_env_fresh:
  "dbHash_events env_fresh =
     [Invoke (SettingsRead ''dbHash''), Settle (SettingsRead ''dbHash'') (Resolved JNull),
      Invoke UuidV4, Invoke (SettingsAdd (dbHash_setting env_fresh)),
      Settle (SettingsAdd (dbHash_setting env_fresh)) (Resolved JUndefined),
      AssignDbHash (JStr ''110ec58a-a0f2-4ac4-8393-c866d813b8d1''),
      Invoke (NotificationsAdd (first_run_notification env_fresh)),
      Settle (NotificationsAdd (first_run_notification env_fresh)) (Resolved JUndefined)]"
  by (simp add: dbHash_events_eq read_dbHash_def prop_get_def Let_def env_fresh_def env_dev_def)

text \<open>A fresh installation, where the dbHash resolution takes the generation path.\<close>

theorem startup_order_witness:
  "Invoke PopulateDefaults \<in> set (trace (setup_server env_fresh initial))
   \<and> Invoke (SettingsRead ''dbHash'') \<in> set (trace (setup_server env_fresh initial))
   \<and> Invoke MailerInit \<in> set (trace (setup_server env_fresh initial))
   \<and> (\<exists>v. precedes (Settle PermissionsInit (Resolved v)) (Invoke MailerInit)
            (trace (setup_server env_fresh initial)))
   \<and> precedes (Invoke (NotificationsAdd (first_run_notification env_fresh))) (Invoke MailerInit)
        (trace (setup_server env_fresh initial))
   \<and> (\<exists>v. precedes (Settle ModelsInit (Resolved v)) (Invoke PopulateDefaults)
            (trace (setup_server env_fresh initial)))
   \<and> (\<exists>v. precedes (Settle ThemeUpdate (Resolved v)) (Invoke (SettingsRead ''dbHash''))
            (trace (setup_server env_fresh initial)))"
proof -
  have a: "Invoke PopulateDefaults \<in> set (trace (setup_server env_fresh initial))"
    "Invoke (SettingsRead ''dbHash'') \<in> set (trace (setup_server env_fresh initial))"
    "Invoke MailerInit \<in> set (trace (setup_server env_fresh initial))"
    by (simp_all add: run_defs env_fresh_def env_dev_def env_to_string_def)
  have b: "Invoke (NotificationsAdd (first_run_notification env_fresh)) \<in> set (dbHash_events env_fresh)"
    by (simp add: dbHash_events_env_fresh)
  show ?thesis
    using startup_order [of env_fresh] a b by blast
qed

subsection \<open>The version check\<close>

lemma is_listening_Settle: "is_listening (Settle c r) = (listen_call c \<and> is_resolved r)"
  by (cases r) simp_all

lemma start_events_unsupported:
  assumes "\<not> semver_satisfies env (node_version env) (engines_node env)"
  shows "list_ex is_listening (start_events env) = is_resolved (respond env (listen_target env))"
    and "is_resolved (respond env (listen_target env)) \<Longrightarrow>
           status (start_app env initial) = Exited 0
         \<and> registered (start_events env) = []
         \<and> logged (start_events env) =
             [[Styled red (CHR 0x0A # ''ERROR: Unsupported version of Node''),
               Styled red (CHR 0x0A # ''Ghost needs Node version''),
               Styled yellow (engines_node env),
               Styled red ''you are using version'',
               Styled yellow (node_version env),
               Styled green
                 (CHR 0x0A # ''Please go to http://nodejs.org to get a supported version'')]]
         \<and> precedes (Invoke (listen_target env))
               (Settle (listen_target env) (respond env (listen_target env))) (start_events env)
         \<and> precedes (Settle (listen_target env) (respond env (listen_target env)))
               (Invoke (ProcessExit 0)) (start_events env)
         \<and> last (start_events env) = Invoke (ProcessExit 0)"
    and "\<not> is_resolved (respond env (listen_target env)) \<Longrightarrow>
           status (start_app env initial) = UncaughtException \<and> logged (start_events env) = []
         \<and> Invoke (ProcessExit code) \<notin> set (start_events env)"
  using assms
  by (cases "truthy (getSocket env)"; cases "respond env (listen_target env)";
      simp add: start_unfold is_listening_Settle)+

text \<open>
  Claim C2 as stated fails: with a Node version outside the supported range,
  \<open>server.listen\<close> is called, and the process exits only afterwards, in the listen callback.
\<close>

theorem unsupported_version_listens:
  "\<not> semver_satisfies env_old_node (node_version env_old_node) (engines_node env_old_node)
   \<and> precedes (Invoke (ListenPort (JStr ''2368'') (JStr ''127.0.0.1''))) (Invoke (ProcessExit 0))
        (trace (setup_server env_old_node initial))"
  by (simp add: run_defs env_old_node_def env_dev_def stored_hash_def)

text \<open>
  Claim C2, amended. With a Node version outside the supported range: when the run gets
  as far as the \<open>listening\<close> event, the listen callback prints the diagnostic (the
  required range and the running version) and exits with code 0, as the last thing the
  process does and without registering an interrupt listener; \<open>server.listen\<close> has been
  called before. When the run does not get that far (the initialisation or the plugins
  are rejected, or the server cannot listen), the check is not reached: nothing is
  printed and \<open>process.exit\<close> is not called.
\<close>

theorem unsupported_version_exits_in_listen_callback:
  assumes "\<not> semver_satisfies env (node_version env) (engines_node env)"
  shows "(list_ex is_listening (trace (setup_server env initial)) \<longrightarrow>
            status (setup_server env initial) = Exited 0
          \<and> registered (trace (setup_server env initial)) = []
          \<and> logged (trace (setup_server env initial)) =
             [[Styled red (CHR 0x0A # ''ERROR: Unsupported version of Node''),
               Styled red (CHR 0x0A # ''Ghost needs Node version''),
               Styled yellow (engines_node env),
               Styled red ''you are using version'',
               Styled yellow (node_version env),
               Styled green
                 (CHR 0x0A # ''Please go to http://nodejs.org to get a supported version'')]]
          \<and> last (trace (setup_server env initial)) = Invoke (ProcessExit 0)
          \<and> (\<exists>c v. listen_call c
                \<and> precedes (Invoke c) (Settle c (Resolved v)) (trace (setup_server env initial))
                \<and> precedes (Settle c (Resolved v)) (Invoke (ProcessExit 0))
                     (trace (setup_server env initial))))
       \<and> (\<not> list_ex is_listening (trace (setup_server env initial)) \<longrightarrow>
            logged (trace (setup_server env initial)) = []
          \<and> (\<forall>code. Invoke (ProcessExit code) \<notin> set (trace (setup_server env initial))
                  \<and> status (setup_server env initial) \<noteq> Exited code))"
proof -
  obtain pre where
    t: "trace (setup_server env initial) =
       pre @ (if is_resolved (fst (init_steps env)) \<and> is_resolved (respond env PluginsInit)
              then start_events env else [])"
    and pre: "\<forall>e\<in>set pre. \<not> start_event e"
    and st: "status (setup_server env initial) =
       (if is_resolved (fst (init_steps env)) then
          if is_resolved (respond env PluginsInit) then status (start_app env initial) else Running
        else TerminatedByErrorHandler)"
    by (rule setup_server_split)
  note silent = not_start_silent [OF pre]
  note u = start_events_unsupported [OF assms]
  have a: ?thesis if r: "is_resolved (fst (init_steps env)) \<and> is_resolved (respond env PluginsInit)"
    and l: "is_resolved (respond env (listen_target env))"
  proof -
    have s: "trace (setup_server env initial) = pre @ start_events env"
      using r t by simp
    obtain v where v: "respond env (listen_target env) = Resolved v"
      using l by (cases "respond env (listen_target env)") auto
    have ne: "start_events env \<noteq> []"
      using u(1) l by auto
    have c: "start_call (listen_target env)"
      by (simp add: listen_target_def)
    have "precedes (Invoke (listen_target env)) (Settle (listen_target env) (Resolved v))
            (trace (setup_server env initial))"
      "precedes (Settle (listen_target env) (Resolved v)) (Invoke (ProcessExit 0))
            (trace (setup_server env initial))"
      using u(2) [OF l] c unfolding s v by (simp_all add: precedes_skip [OF pre])
    then have "\<exists>c v. listen_call c
                \<and> precedes (Invoke c) (Settle c (Resolved v)) (trace (setup_server env initial))
                \<and> precedes (Settle c (Resolved v)) (Invoke (ProcessExit 0))
                     (trace (setup_server env initial))"
      using listen_target_call [of env] by blast
    moreover have "list_ex is_listening (trace (setup_server env initial))"
      unfolding s using u(1) l by (simp add: silent)
    moreover have "status (setup_server env initial) = Exited 0"
      using st r u(2) [OF l] by simp
    moreover have "registered (trace (setup_server env initial)) = []"
      "logged (trace (setup_server env initial)) = logged (start_events env)"
      unfolding s using u(2) [OF l] by (simp_all add: registered_append logged_append silent)
    moreover have "last (trace (setup_server env initial)) = Invoke (ProcessExit 0)"
      unfolding s using u(2) [OF l] ne by simp
    ultimately show ?thesis using u(2) [OF l] by simp
  qed
  have b: ?thesis if r: "is_resolved (fst (init_steps env)) \<and> is_resolved (respond env PluginsInit)"
    and l: "\<not> is_resolved (respond env (listen_target env))"
  proof -
    have s: "trace (setup_server env initial) = pre @ start_events env"
      using r t by simp
    have "\<not> list_ex is_listening (trace (setup_server env initial))"
      unfolding s using u(1) l by (simp add: silent)
    moreover have "logged (trace (setup_server env initial)) = []"
      unfolding s using u(3) [OF l] by (simp add: logged_append silent)
    moreover have "Invoke (ProcessExit code) \<notin> set (trace (setup_server env initial))" for code
      unfolding s using u(3) [OF l, of code] pre by auto
    moreover have "status (setup_server env initial) \<noteq> Exited code" for code
      using st r u(3) [OF l] by simp
    ultimately show ?thesis by simp
  qed
  have c: ?thesis if r: "\<not> (is_resolved (fst (init_steps env)) \<and> is_resolved (respond env PluginsInit))"
  proof -
    have s: "trace (setup_server env initial) = pre"
      using r t by auto
    have "\<not> list_ex is_listening (trace (setup_server env initial))"
      "logged (trace (setup_server env initial)) = []"
      unfolding s by (simp_all add: silent)
    moreover have "Invoke (ProcessExit code) \<notin> set (trace (setup_server env initial))" for code
      unfolding s using pre by auto
    moreover have "status (setup_server env initial) \<noteq> Exited code" for code
      using st r by auto
    ultimately show ?thesis by simp
  qed
  from a b c show ?thesis by blast
qed

text \<open>
  The development installation on an old Node, and the same with plugins that are
  rejected.
\<close>

theorem unsupported_version_exits_in_listen_callback_witness:
  "\<not> semver_satisfies env_old_node (node_version env_old_node) (engines_node env_old_node)
   \<and> list_ex is_listening (trace (setup_server env_old_node initial))
   \<and> status (setup_server env_old_node initial) = Exited 0
   \<and> registered (trace (setup_server env_old_node initial)) = []
   \<and> last (trace (setup_server env_old_node initial)) = Invoke (ProcessExit 0)
   \<and> \<not> semver_satisfies env_old_node_plugin_fails (node_version env_old_node_plugin_fails)
         (engines_node env_old_node_plugin_fails)
   \<and> \<not> list_ex is_listening (trace (setup_server env_old_node_plugin_fails initial))
   \<and> logged (trace (setup_server env_old_node_plugin_fails initial)) = []
   \<and> Invoke (ProcessExit 0) \<notin> set (trace (setup_server env_old_node_plugin_fails initial))"
proof -
  have a: "\<not> semver_satisfies env_old_node (node_version env_old_node) (engines_node env_old_node)"
    by (simp add: env_old_node_def env_dev_def)
  have b: "list_ex is_listening (trace (setup_server env_old_node initial))"
    by (simp add: run_defs env_old_node_def env_dev_def stored_hash_def)
  have c: "\<not> semver_satisfies env_old_node_plugin_fails (node_version env_old_node_plugin_fails)
         (engines_node env_old_node_plugin_fails)"
    by (simp add: env_old_node_plugin_fails_def env_dev_def)
  have d: "\<not> list_ex is_listening (trace (setup_server env_old_node_plugin_fails initial))"
    by (simp add: run_defs env_old_node_plugin_fails_def env_dev_def stored_hash_def)
  show ?thesis
    using unsupported_version_exits_in_listen_callback [OF a]
      unsupported_version_exits_in_listen_callback [OF c] a b c d
    by simp
qed

subsection \<open>Shutdown on interrupt\<close>

lemma start_events_started:
  assumes "status (start_app env initial) = Running" "list_ex is_listening (start_events env)"
  shows "registered (start_events env) =
    [if NODE_ENV env = Some ''production'' then production_shutdown else development_shutdown]"
  using assms
  by (cases "truthy (getSocket env)"; cases "respond env (listen_target env)";
      simp add: start_unfold is_listening_Settle split: if_splits)+

lemma Math_round_nearest:
  "0 \<le> x \<Longrightarrow> 0 \<le> Math_round x" "\<bar>of_int (Math_round x) - x\<bar> \<le> 1 / 2"
proof -
  show "0 \<le> x \<Longrightarrow> 0 \<le> Math_round x"
    by (simp add: Math_round_def)
  have "of_int \<lfloor>x + 1 / 2\<rfloor> \<le> x + 1 / 2" "x + 1 / 2 < of_int \<lfloor>x + 1 / 2\<rfloor> + 1"
    by linarith+
  then show "\<bar>of_int (Math_round x) - x\<bar> \<le> 1 / 2"
    unfolding Math_round_def by linarith
qed

text \<open>
  Claim C8. In a run that has reached successful startup, an interrupt makes the process
  print the shutdown message and exit with code 0, and nothing else; outside production
  the message holds \<open>Math.round(process.uptime())\<close>, a whole number within one half of the
  uptime, and not negative when the uptime is not.
\<close>

theorem sigint_after_startup:
  assumes "started (setup_server env initial)"
  shows "SIGINT uptime (setup_server env initial) =
      \<lparr>trace = trace (setup_server env initial) @
         [Invoke (ConsoleLog
            (if NODE_ENV env = Some ''production''
             then [Styled red (CHR 0x0A # ''Ghost has shut down''),
                   Plain (CHR 0x0A # ''Your blog is now offline'')]
             else [Styled red (CHR 0x0A # ''Ghost has shutdown''),
                   Plain (CHR 0x0A # ''Ghost was running for''),
                   Number (Math_round uptime),
                   Plain ''seconds''])),
          Invoke (ProcessExit 0)],
       status = Exited 0\<rparr>
    \<and> (0 \<le> uptime \<longrightarrow> 0 \<le> Math_round uptime \<and> \<bar>of_int (Math_round uptime) - uptime\<bar> \<le> 1 / 2)"
proof -
  obtain pre where
    t: "trace (setup_server env initial) =
       pre @ (if is_resolved (fst (init_steps env)) \<and> is_resolved (respond env PluginsInit)
              then start_events env else [])"
    and pre: "\<forall>e\<in>set pre. \<not> start_event e"
    and st: "status (setup_server env initial) =
       (if is_resolved (fst (init_steps env)) then
          if is_resolved (respond env PluginsInit) then status (start_app env initial) else Running
        else TerminatedByErrorHandler)"
    by (rule setup_server_split)
  note silent = not_start_silent [OF pre]
  from assms have run: "status (setup_server env initial) = Running"
    and lis: "list_ex is_listening (trace (setup_server env initial))"
    by (simp_all add: started_def)
  have r: "is_resolved (fst (init_steps env)) \<and> is_resolved (respond env PluginsInit)"
    using lis unfolding t by (auto simp: silent split: if_splits)
  then have s: "trace (setup_server env initial) = pre @ start_events env"
    using t by simp
  have "list_ex is_listening (start_events env)"
    using lis unfolding s by (simp add: silent)
  moreover have "status (start_app env initial) = Running"
    using run st r by simp
  ultimately have "registered (start_events env) =
    [if NODE_ENV env = Some ''production'' then production_shutdown else development_shutdown]"
    by (rule start_events_started [rotated])
  then have reg: "registered (trace (setup_server env initial)) =
    [if NODE_ENV env = Some ''production'' then production_shutdown else development_shutdown]"
    unfolding s by (simp add: registered_append silent)
  have "SIGINT uptime (setup_server env initial) =
      \<lparr>trace = trace (setup_server env initial) @
         [Invoke (ConsoleLog
            (if NODE_ENV env = Some ''production''
             then [Styled red (CHR 0x0A # ''Ghost has shut down''),
                   Plain (CHR 0x0A # ''Your blog is now offline'')]
             else [Styled red (CHR 0x0A # ''Ghost has shutdown''),
                   Plain (CHR 0x0A # ''Ghost was running for''),
                   Number (Math_round uptime),
                   Plain ''seconds''])),
          Invoke (ProcessExit 0)],
       status = Exited 0\<rparr>"
    using run reg
    by (cases "setup_server env initial")
       (simp add: SIGINT_def run_handler_def process_exit_def console_log_def emit_def)
  then show ?thesis
    using Math_round_nearest [of uptime] by simp
qed

text \<open>The development installation, interrupted after three and a half seconds.\<close>

theorem sigint_after_startup_witness:
  "started (setup_server env_dev initial)
   \<and> status (SIGINT (7 / 2) (setup_server env_dev initial)) = Exited 0
   \<and> last (logged (trace (SIGINT (7 / 2) (setup_server env_dev initial)))) =
       [Styled red (CHR 0x0A # ''Ghost has shutdown''),
        Plain (CHR 0x0A # ''Ghost was running for''), Number 4, Plain ''seconds'']
   \<and> last (trace (SIGINT (7 / 2) (setup_server env_dev initial))) = Invoke (ProcessExit 0)
   \<and> (0::rat) \<le> 7 / 2
   \<and> \<bar>of_int (Math_round (7 / 2)) - (7 / 2 :: rat)\<bar> \<le> 1 / 2"
proof -
  have a: "started (setup_server env_dev initial)"
    by (simp add: started_def trace_env_dev)
       (simp add: run_defs env_dev_def stored_hash_def)
  have b: "NODE_ENV env_dev \<noteq> Some ''production''"
    by (simp add: env_dev_def)
  have c: "Math_round (7 / 2) = 4"
    by (simp add: Math_round_def)
  have d: "(0::rat) \<le> 7 / 2"
    by simp
  show ?thesis
    using sigint_after_startup [OF a, of "7 / 2"] a b c d
    by (simp add: logged_append)
qed

subsection \<open>Rejections of the startup stages\<close>

text \<open>
  A rejection of the chain before the last callback reaches the terminal handler, and
  the chain is rejected exactly when one of its eight stages is.
\<close>

lemma init_rejection_reaches_handler:
  assumes "fst (init_steps env) = Rejected e"
  shows "handled (trace (setup_server env initial)) = [e]"
    and "status (setup_server env initial) = TerminatedByErrorHandler"
    and "last (trace (setup_server env initial)) = Invoke (LogErrorAndExit e)"
  using assms by (simp_all add: setup_server_cases handled_append init_steps_silent)

lemma init_steps_resolved_iff:
  "is_resolved (fst (init_steps env)) \<longleftrightarrow>
     is_resolved (respond env ModelsInit)
   \<and> is_resolved (respond env (UpdatePaths (url (conf env))))
   \<and> is_resolved (respond env PopulateDefaults)
   \<and> is_resolved (respond env ApiInit)
   \<and> is_resolved (respond env ThemeUpdate)
   \<and> is_resolved (fst (initDbHashAndFirstRun env initial))
   \<and> is_resolved (respond env PermissionsInit)
   \<and> is_resolved (respond env MailerInit)"
proof -
  obtain xs ys where f: "fan_out_2 env =
       (case fst (initDbHashAndFirstRun env initial) of
          Rejected e \<Rightarrow>
            (if ys = [] then (Rejected e, Invoke (SettingsRead ''dbHash'') # Invoke PermissionsInit # xs)
             else (case respond env PermissionsInit of
                     Rejected e' \<Rightarrow>
                       (Rejected e', Invoke (SettingsRead ''dbHash'') # Invoke PermissionsInit # xs
                          @ [Settle PermissionsInit (Rejected e')])
                   | Resolved w \<Rightarrow>
                       (Rejected e, Invoke (SettingsRead ''dbHash'') # Invoke PermissionsInit # xs
                          @ Settle PermissionsInit (Resolved w) # ys)))
        | Resolved v \<Rightarrow>
            (case respond env PermissionsInit of
               Rejected e' \<Rightarrow>
                 (Rejected e', Invoke (SettingsRead ''dbHash'') # Invoke PermissionsInit # xs
                    @ [Settle PermissionsInit (Rejected e')])
             | Resolved w \<Rightarrow>
                 (Resolved (JArray [v, w]), Invoke (SettingsRead ''dbHash'') # Invoke PermissionsInit # xs
                    @ Settle PermissionsInit (Resolved w) # ys)))"
    by (rule fan_out_2_cases)
  have "is_resolved (fst (fan_out_2 env)) \<longleftrightarrow>
      is_resolved (fst (initDbHashAndFirstRun env initial)) \<and> is_resolved (respond env PermissionsInit)"
    unfolding f by (simp split: outcome.splits)
  then show ?thesis
    by (auto simp: init_steps_unfold split: outcome.splits)
qed

text \<open>
  The promise of \<open>plugins.init()\<close> is created inside the last callback and is not returned
  from it: its rejection reaches no handler. The process keeps running and never listens.
\<close>

lemma plugins_rejection_not_handled:
  assumes "is_resolved (fst (init_steps env))" "respond env PluginsInit = Rejected e"
  shows "handled (trace (setup_server env initial)) = []"
    and "status (setup_server env initial) = Running"
    and "last (trace (setup_server env initial)) = Settle PluginsInit (Rejected e)"
    and "\<not> list_ex is_listen (trace (setup_server env initial))"
  using assms init_steps_silent [of env]
  by (cases "fst (init_steps env)";
      simp add: setup_server_cases handled_append Let_def)+

text \<open>
  Claim C3 at a rejected plugin initialisation: the terminal handler is not called, the
  process is not terminated, and the rejection is the last event of the run.
\<close>

theorem plugins_rejection_unhandled:
  "respond env_plugin_fails PluginsInit = Rejected (Reason (JStr ''plugin failed to load''))
   \<and> handled (trace (setup_server env_plugin_fails initial)) = []
   \<and> status (setup_server env_plugin_fails initial) = Running
   \<and> last (trace (setup_server env_plugin_fails initial))
       = Settle PluginsInit (Rejected (Reason (JStr ''plugin failed to load'')))
   \<and> \<not> list_ex is_listen (trace (setup_server env_plugin_fails initial))"
  by (simp add: run_defs env_plugin_fails_def env_dev_def stored_hash_def)

end
